theory Spec2Isabelle
  imports Main "HOL-Library.Extended_Nat"
begin

section \<open>Questionnaire scorer (server/routes.ts, calculateAOTScore)\<close>

text \<open>
  The rows the scorer receives: a response \<open>{questionId, response}\<close> and a question
  \<open>{id, isReversed}\<close>. Both ids and response values are database integers, read
  by the handler as JavaScript numbers; they are modelled as \<open>int\<close>.
  The field \<open>id\<close> of a question is named \<open>q_id\<close> (\<open>id\<close> is the identity of HOL).
\<close>

record aot_response =
  questionId :: int
  response :: int

record aot_question =
  q_id :: int
  isReversed :: bool

text \<open>\<open>new Map(questions.map(q => [q.id, q.isReversed]))\<close>: entries are inserted in the order
  of the list, a later entry for the same key replacing the earlier one.\<close>

definition reversedMap :: "aot_question list \<Rightarrow> (int \<rightharpoonup> bool)" where
  "reversedMap questions = fold (\<lambda>q m. m(q_id q \<mapsto> isReversed q)) questions Map.empty"

text \<open>\<open>Math.min(Math.max(response.response, 1), 6)\<close>\<close>

definition validResponse :: "int \<Rightarrow> int" where
  "validResponse v = min (max v 1) 6"

text \<open>The body of the \<open>for\<close> loop: \<open>reversedMap.get(id) || false\<close>, then the score of the
  question.\<close>

definition questionScore :: "(int \<rightharpoonup> bool) \<Rightarrow> aot_response \<Rightarrow> int" where
  "questionScore m r =
     (let isRev = (case m (questionId r) of None \<Rightarrow> False | Some b \<Rightarrow> b)
      in if isRev then 7 - validResponse (response r) else validResponse (response r))"

text \<open>The scorer. \<open>None\<close> is the \<open>null\<close> it returns when the number of distinct answered
  question ids (the size of the \<open>Set\<close>) differs from the number of questions.\<close>

definition calculateAOTScore :: "aot_response list \<Rightarrow> aot_question list \<Rightarrow> int option" where
  "calculateAOTScore responses questions =
     (let answeredQuestions = set (map questionId responses);
          totalQuestions = length questions
      in if card answeredQuestions \<noteq> totalQuestions then None
         else Some (fold (\<lambda>r totalScore. totalScore + questionScore (reversedMap questions) r)
                      responses 0))"

text \<open>
  The part of the handler of \<open>POST /api/complete-questionnaire\<close> that follows the two
  queries: \<open>latestResponses\<close> (one row per answered question id, the query selects
  \<open>DISTINCT ON (question_id)\<close>) and \<open>aotQuestionsList\<close>. On \<open>null\<close> it answers status 400
  with \<open>missingCount = aotQuestionsList.length - latestResponses.length\<close>; otherwise it
  stores the score.
\<close>

datatype questionnaire_result =
    Incomplete int      \<comment> \<open>400, "Please answer all questions. Missing N questions."\<close>
  | Completed int       \<comment> \<open>200, the stored \<open>aotScore\<close>\<close>

definition complete_questionnaire ::
  "aot_response list \<Rightarrow> aot_question list \<Rightarrow> questionnaire_result" where
  "complete_questionnaire latestResponses aotQuestionsList =
     (case calculateAOTScore latestResponses aotQuestionsList of
        None \<Rightarrow> Incomplete (int (length aotQuestionsList) - int (length latestResponses))
      | Some aotScore \<Rightarrow> Completed aotScore)"

section \<open>Strings\<close>

text \<open>
  A JavaScript string is a sequence of UTF-16 code units; a code unit is modelled as a
  natural number, a string as the list of its code units. \<open>js\<close> writes a literal.
\<close>

type_synonym jsstring = "nat list"

definition js :: "string \<Rightarrow> jsstring" where
  "js s = map of_char s"

section \<open>Numbers\<close>

text \<open>
  The numbers that the handlers compute from a reply are JavaScript Numbers (doubles)
  whose value is a natural number, or \<open>Infinity\<close>; they are modelled as \<open>enat\<close>. Every
  natural number up to \<open>2^53\<close> is a Number. A larger one is rounded to the nearest
  Number, which has 53 significant bits, to the one with the even significand when it
  lies half way between two, and to \<open>Infinity\<close> when the rounded value reaches \<open>2^1024\<close>.
\<close>

fun bit_length :: "nat \<Rightarrow> nat" where
  "bit_length n = (if n = 0 then 0 else Suc (bit_length (n div 2)))"

declare bit_length.simps [simp del]

definition to_number :: "nat \<Rightarrow> enat" where
  "to_number n =
     (if n \<le> 9007199254740992 then enat n
      else (let q = 2 ^ (bit_length n - 53); m = n div q; r = n mod q;
                m' = (if 2 * r < q \<or> (2 * r = q \<and> even m) then m else m + 1)
            in if 2 ^ 1024 \<le> m' * q then \<infinity> else enat (m' * q)))"

text \<open>The operator \<open>+\<close> on two such Numbers: the exact sum, rounded.\<close>

definition js_plus :: "enat \<Rightarrow> enat \<Rightarrow> enat" where
  "js_plus a b = (case a + b of enat n \<Rightarrow> to_number n | \<infinity> \<Rightarrow> \<infinity>)"

text \<open>\<open>parseInt\<close> of a string of decimal digits, which is all the handlers pass to it (the
  argument is always a group \<open>(\d+)\<close>): the integer that the digits denote, as a Number.\<close>

definition decimal :: "jsstring \<Rightarrow> nat" where
  "decimal ds = foldl (\<lambda>a d. 10 * a + (d - 48)) 0 ds"

definition parseInt :: "jsstring \<Rightarrow> enat" where
  "parseInt ds = to_number (decimal ds)"

section \<open>The database (schema.ts) and the handlers that write it\<close>

text \<open>
  Of each table the columns that the modelled handlers read or write: \<open>users\<close>
  (\<open>id\<close>, \<open>total_score\<close>), \<open>badges\<close> (\<open>id\<close>, \<open>name\<close>) and \<open>user_badges\<close>
  (\<open>id\<close>, \<open>user_id\<close>, \<open>badge_id\<close>, \<open>game_type\<close>). A table is the list of its rows
  in insertion order. The schema declares no uniqueness constraint on
  \<open>(user_id, badge_id)\<close>.

  The constraints of the schema that a write of these handlers can violate are part of
  the model: \<open>total_score\<close> is a 32-bit \<open>integer\<close> column, \<open>game_type\<close> is
  \<open>varchar(50) not null\<close>, \<open>user_badges.id\<close> is a primary key, and
  \<open>user_badges.user_id\<close> and \<open>user_badges.badge_id\<close> reference \<open>users.id\<close> and
  \<open>badges.id\<close>. A statement that violates one of them raises an error and changes no
  table.
\<close>

record user_row =
  u_id :: int
  totalScore :: int

record badge_row =
  b_id :: int
  b_name :: jsstring

record user_badge_row =
  ub_id :: int
  userId :: int
  badgeId :: int
  gameType :: jsstring

record db =
  users :: "user_row list"
  badges :: "badge_row list"
  userBadges :: "user_badge_row list"

subsection \<open>Column types\<close>

text \<open>The range of an \<open>integer\<close> column and of an \<open>integer\<close> parameter.\<close>

definition int4 :: "int \<Rightarrow> bool" where
  "int4 i \<longleftrightarrow> - 2147483648 \<le> i \<and> i \<le> 2147483647"

text \<open>
  A JavaScript string is sent to the database as UTF-8 text. The characters of the text
  are the code points of the string: a surrogate pair is one character, and a surrogate
  without its partner is replaced by U+FFFD when the string is encoded. A string that
  holds the code unit 0 is refused by the server.
\<close>

definition high_surrogate :: "nat \<Rightarrow> bool" where
  "high_surrogate c \<longleftrightarrow> 55296 \<le> c \<and> c \<le> 56319"

definition low_surrogate :: "nat \<Rightarrow> bool" where
  "low_surrogate c \<longleftrightarrow> 56320 \<le> c \<and> c \<le> 57343"

fun characters :: "jsstring \<Rightarrow> jsstring list" where
  "characters (x # y # s) =
     (if high_surrogate x \<and> low_surrogate y then [x, y] # characters s
      else (if high_surrogate x \<or> low_surrogate x then [65533] else [x]) # characters (y # s))"
| "characters [x] = [if high_surrogate x \<or> low_surrogate x then [65533] else [x]]"
| "characters [] = []"

definition pg_text :: "jsstring \<Rightarrow> jsstring option" where
  "pg_text s = (if 0 \<in> set s then None else Some (concat (characters s)))"

text \<open>
  Storing a text in a \<open>varchar(n)\<close> column: a text of more than \<open>n\<close> characters is an
  error, unless the characters after the first \<open>n\<close> are all spaces, in which case the
  first \<open>n\<close> are stored.
\<close>

definition pg_varchar :: "nat \<Rightarrow> jsstring \<Rightarrow> jsstring option" where
  "pg_varchar n t =
     (let cs = characters t
      in if length cs \<le> n then Some t
         else if list_all (\<lambda>c. c = [32]) (drop n cs) then Some (concat (take n cs))
         else None)"

text \<open>A field of a JSON request body that holds a string when it is present.\<close>

datatype body_field = Absent | JsNull | Given jsstring

subsection \<open>POST /api/update-score\<close>

datatype score_response =
    ScoreNotLoggedIn           \<comment> \<open>401\<close>
  | ScoreUpdated int           \<comment> \<open>200 with \<open>newTotalScore\<close>\<close>
  | ScoreFailed                \<comment> \<open>500, from the \<open>catch\<close>\<close>

text \<open>\<open>Math.max(-currentUser.totalScore, points)\<close>\<close>

definition safePointsToAdd :: "int \<Rightarrow> int \<Rightarrow> int" where
  "safePointsToAdd currentTotal points = max (- currentTotal) points"

text \<open>\<open>UPDATE users SET total_score = total_score + safe WHERE id = uid\<close>, when it
  succeeds.\<close>

definition add_to_total :: "int \<Rightarrow> int \<Rightarrow> user_row list \<Rightarrow> user_row list" where
  "add_to_total uid delta us =
     map (\<lambda>u. if u_id u = uid then u\<lparr>totalScore := totalScore u + delta\<rparr> else u) us"

text \<open>
  The handler. \<open>auth\<close> is \<open>req.user.id\<close> of an authenticated request, \<open>None\<close> otherwise;
  \<open>points\<close> is an integer. When the select returns no row, \<open>currentUser\<close> is
  \<open>undefined\<close>, reading its \<open>totalScore\<close> throws and the \<open>catch\<close> answers 500 before any
  write. The update raises \<open>integer out of range\<close> when the parameter or the new value
  of a row it updates is outside the range of the column; the \<open>catch\<close> answers 500 and
  nothing is stored.
\<close>

definition update_score :: "int option \<Rightarrow> int \<Rightarrow> db \<Rightarrow> score_response \<times> db" where
  "update_score auth points d =
     (case auth of
        None \<Rightarrow> (ScoreNotLoggedIn, d)
      | Some uid \<Rightarrow>
          (case find (\<lambda>u. u_id u = uid) (users d) of
             None \<Rightarrow> (ScoreFailed, d)
           | Some currentUser \<Rightarrow>
               (let safe = safePointsToAdd (totalScore currentUser) points
                in if \<not> int4 safe
                      \<or> \<not> list_all (\<lambda>u. u_id u = uid \<longrightarrow> int4 (totalScore u + safe)) (users d)
                   then (ScoreFailed, d)
                   else (let d' = d\<lparr>users := add_to_total uid safe (users d)\<rparr>
                         in (case find (\<lambda>u. u_id u = uid) (users d') of
                               None \<Rightarrow> (ScoreFailed, d')
                             | Some updatedUser \<Rightarrow>
                                 (ScoreUpdated (totalScore updatedUser), d'))))))"

subsection \<open>The badge ledger: POST /api/award-badge and the badge flow of POST /api/dialogue\<close>

text \<open>\<open>select().from(badges).where(eq(badges.name, badgeType)).limit(1)\<close>, for a name that
  has reached the database.\<close>

definition badge_by_name :: "db \<Rightarrow> jsstring \<Rightarrow> badge_row option" where
  "badge_by_name d badgeType = find (\<lambda>b. b_name b = badgeType) (badges d)"

text \<open>The rows of \<open>user_badges\<close> for a user and a badge.\<close>

definition existingBadge :: "db \<Rightarrow> int \<Rightarrow> int \<Rightarrow> user_badge_row list" where
  "existingBadge d uid bid = filter (\<lambda>r. userId r = uid \<and> badgeId r = bid) (userBadges d)"

text \<open>
  \<open>db.insert(userBadges).values({userId, badgeId, gameType})\<close>. \<open>game\<close> is the value
  given for \<open>game_type\<close>, \<open>None\<close> for \<open>null\<close>. The id of the new row comes from the
  sequence of the serial column; it is an argument of the model (\<open>newId\<close>), refused when
  a row has it already. The result is \<open>None\<close> when the insert raises an error.
\<close>

definition insert_userBadge :: "int \<Rightarrow> int \<Rightarrow> int \<Rightarrow> jsstring option \<Rightarrow> db \<Rightarrow> db option" where
  "insert_userBadge newId uid bid game d =
     (case game of
        None \<Rightarrow> None
      | Some g \<Rightarrow>
          (case Option.bind (pg_text g) (pg_varchar 50) of
             None \<Rightarrow> None
           | Some stored \<Rightarrow>
               if newId \<notin> ub_id ` set (userBadges d) \<and> uid \<in> u_id ` set (users d)
                  \<and> bid \<in> b_id ` set (badges d)
               then Some (d\<lparr>userBadges := userBadges d @
                        [\<lparr>ub_id = newId, userId = uid, badgeId = bid, gameType = stored\<rparr>]\<rparr>)
               else None))"

datatype award_response =
    AwardNotLoggedIn           \<comment> \<open>401\<close>
  | BadgeTypeRequired          \<comment> \<open>400, \<open>badgeType\<close> missing, \<open>null\<close> or empty\<close>
  | BadgeNotFound              \<comment> \<open>404\<close>
  | BadgeAlreadyAwarded badge_row   \<comment> \<open>200, "Badge already awarded"\<close>
  | BadgeAwarded badge_row          \<comment> \<open>200, "Badge awarded successfully"\<close>
  | AwardFailed                \<comment> \<open>500, from the \<open>catch\<close>\<close>

text \<open>
  The handler of \<open>POST /api/award-badge\<close>. \<open>badgeType\<close> and \<open>game\<close> are the body
  fields \<open>badgeType\<close> and \<open>gameType\<close>; \<open>!badgeType\<close> holds for a missing field, for \<open>null\<close> and for the empty string,
  and the default \<open>'thought_zombies'\<close> of \<open>gameType\<close> applies to a missing field only.
  An error of a query or of the insert is caught and answered with 500.
\<close>

definition award_badge ::
  "int option \<Rightarrow> body_field \<Rightarrow> body_field \<Rightarrow> int \<Rightarrow> db \<Rightarrow> award_response \<times> db" where
  "award_badge auth badgeType game newId d =
     (case auth of
        None \<Rightarrow> (AwardNotLoggedIn, d)
      | Some uid \<Rightarrow>
          (case badgeType of
             Absent \<Rightarrow> (BadgeTypeRequired, d)
           | JsNull \<Rightarrow> (BadgeTypeRequired, d)
           | Given bt \<Rightarrow>
               if bt = [] then (BadgeTypeRequired, d)
               else (case pg_text bt of
                       None \<Rightarrow> (AwardFailed, d)
                     | Some name \<Rightarrow>
                         (case badge_by_name d name of
                            None \<Rightarrow> (BadgeNotFound, d)
                          | Some badge \<Rightarrow>
                              if length (existingBadge d uid (b_id badge)) > 0
                              then (BadgeAlreadyAwarded badge, d)
                              else (case insert_userBadge newId uid (b_id badge)
                                           (case game of
                                              Absent \<Rightarrow> Some (js ''thought_zombies'')
                                            | JsNull \<Rightarrow> None
                                            | Given g \<Rightarrow> Some g) d of
                                      None \<Rightarrow> (AwardFailed, d)
                                    | Some d' \<Rightarrow> (BadgeAwarded badge, d'))))))"

text \<open>
  The badge flow of \<open>POST /api/dialogue\<close>, entered with the badge name found in the reply
  (\<open>badgeType\<close>). The response carries the badge only when it was newly awarded; an
  owned badge, an unknown name and an error (caught inside the flow) all leave
  \<open>badge = null\<close> and differ in the line written to the log.
\<close>

datatype badge_log = LogAwarded | LogAlreadyHas | LogUnknown | LogError

definition dialogue_award_badge ::
  "int \<Rightarrow> jsstring \<Rightarrow> int \<Rightarrow> db \<Rightarrow> (badge_log \<times> badge_row option) \<times> db" where
  "dialogue_award_badge uid badgeType newId d =
     (case pg_text badgeType of
        None \<Rightarrow> ((LogError, None), d)
      | Some name \<Rightarrow>
          (case badge_by_name d name of
             None \<Rightarrow> ((LogUnknown, None), d)
           | Some badgeRow \<Rightarrow>
               if length (existingBadge d uid (b_id badgeRow)) = 0
               then (case insert_userBadge newId uid (b_id badgeRow)
                            (Some (js ''thought_zombies'')) d of
                       None \<Rightarrow> ((LogError, None), d)
                     | Some d' \<Rightarrow> ((LogAwarded, Some badgeRow), d'))
               else ((LogAlreadyHas, None), d)))"

text \<open>The three outcomes of the ledger named by the specification, read off the response
  of the one path and off the log and the response of the other.\<close>

datatype award_outcome = alreadyOwned | newlyAwarded badge_row | unknownBadgeName | rejected

fun outcome_of_award :: "award_response \<Rightarrow> award_outcome" where
  "outcome_of_award (BadgeAwarded b) = newlyAwarded b"
| "outcome_of_award (BadgeAlreadyAwarded b) = alreadyOwned"
| "outcome_of_award BadgeNotFound = unknownBadgeName"
| "outcome_of_award _ = rejected"

fun outcome_of_dialogue :: "badge_log \<times> badge_row option \<Rightarrow> award_outcome" where
  "outcome_of_dialogue (LogAwarded, Some b) = newlyAwarded b"
| "outcome_of_dialogue (LogAlreadyHas, _) = alreadyOwned"
| "outcome_of_dialogue (LogUnknown, _) = unknownBadgeName"
| "outcome_of_dialogue _ = rejected"

text \<open>
  The operation \<open>tryAwardBadge(userId, badgeName, contextTag)\<close> of the specification is
  implemented by these two code paths; \<open>ledger_path\<close> says which one a call takes, and
  with which \<open>gameType\<close> field.
\<close>

datatype ledger_path = ViaAwardBadge body_field | ViaDialogue

definition tryAwardBadge ::
  "ledger_path \<Rightarrow> int \<Rightarrow> jsstring \<Rightarrow> int \<Rightarrow> db \<Rightarrow> award_outcome \<times> db" where
  "tryAwardBadge path uid badgeName newId d =
     (case path of
        ViaAwardBadge game \<Rightarrow>
          (case award_badge (Some uid) (Given badgeName) game newId d of
             (r, d') \<Rightarrow> (outcome_of_award r, d'))
      | ViaDialogue \<Rightarrow>
          (case dialogue_award_badge uid badgeName newId d of
             (r, d') \<Rightarrow> (outcome_of_dialogue r, d')))"

section \<open>Regular expressions of the handlers\<close>

text \<open>
  The handlers recover all structure from the reply of the text service with JavaScript
  regular expressions. The fragment they use is modelled as data, so that each regular
  expression of the source is written down item by item, and given its meaning by a
  backtracking matcher that tries the alternatives in the order of the JavaScript
  semantics: a greedy quantifier takes one more character first and gives it back when
  the rest fails, a lazy one tries the rest first.

  Character classes: \<open>\s\<close>, \<open>\d\<close>, \<open>[a-z_]\<close>, \<open>[^c]\<close>, \<open>[\s\S]\<close> and \<open>.\<close>.
\<close>

definition is_space :: "nat \<Rightarrow> bool" where
  \<comment> \<open>WhiteSpace and LineTerminator of ECMAScript: what \<open>\s\<close> matches and \<open>trim\<close> strips\<close>
  "is_space c = (c \<in> {9, 10, 11, 12, 13, 32, 160, 5760, 8232, 8233, 8239, 8287, 12288, 65279}
                 \<or> (8192 \<le> c \<and> c \<le> 8202))"

definition is_line_terminator :: "nat \<Rightarrow> bool" where
  "is_line_terminator c = (c \<in> {10, 13, 8232, 8233})"

definition is_digit :: "nat \<Rightarrow> bool" where
  "is_digit c = (48 \<le> c \<and> c \<le> 57)"

definition is_lower :: "nat \<Rightarrow> bool" where
  "is_lower c = (97 \<le> c \<and> c \<le> 122)"

definition is_upper :: "nat \<Rightarrow> bool" where
  "is_upper c = (65 \<le> c \<and> c \<le> 90)"

text \<open>
  Under the flag \<open>i\<close> two code units match when their canonical forms agree. Every
  character written in the patterns below is ASCII, and the canonical form of a
  non-ASCII code unit is never ASCII, so only the ASCII letters matter: \<open>canon\<close> maps
  \<open>a-z\<close> to \<open>A-Z\<close> and leaves every other code unit alone.
\<close>

definition canon :: "nat \<Rightarrow> nat" where
  "canon c = (if is_lower c then c - 32 else c)"

datatype cclass = Space | Digit | LowerUnderscore | NotChar nat | AnyChar | Dot

fun in_class :: "bool \<Rightarrow> cclass \<Rightarrow> nat \<Rightarrow> bool" where
  "in_class i Space c = is_space c"
| "in_class i Digit c = is_digit c"
| "in_class i LowerUnderscore c = (is_lower c \<or> c = 95 \<or> (i \<and> is_upper c))"
| "in_class i (NotChar x) c = (if i then canon c \<noteq> canon x else c \<noteq> x)"
| "in_class i AnyChar c = True"
| "in_class i Dot c = (\<not> is_line_terminator c)"

text \<open>
  Items of a pattern: a literal string, \<open>C*\<close>, \<open>C+\<close> and \<open>C*?\<close> for a class \<open>C\<close>, the
  parentheses of a capturing group, an alternation of literals \<open>(?:a|b)\<close>, and the
  lookahead \<open>(?=(?:a|b|$))\<close> for one of some literals or the end of the input.
\<close>

datatype item = Lit jsstring | Star cclass | Plus cclass | LazyStar cclass | Open | Close
  | Alt "jsstring list" | AheadEnd "jsstring list"

fun lit_match :: "bool \<Rightarrow> jsstring \<Rightarrow> jsstring \<Rightarrow> bool" where
  "lit_match i [] s = True"
| "lit_match i (p # ps) [] = False"
| "lit_match i (p # ps) (c # cs) =
     ((if i then canon p = canon c else p = c) \<and> lit_match i ps cs)"

fun item_weight :: "item \<Rightarrow> nat" where
  "item_weight (Alt ls) = Suc (length ls)"
| "item_weight _ = 1"

text \<open>
  \<open>rx i r n s\<close> matches the items \<open>r\<close> against the input \<open>s\<close> that starts at index \<open>n\<close>
  of the text, under the flag \<open>i\<close>. The result is the list of the indices at which the
  parentheses were passed, in order, and the index at which the match ends.
\<close>

function (sequential) rx ::
  "bool \<Rightarrow> item list \<Rightarrow> nat \<Rightarrow> jsstring \<Rightarrow> (nat list \<times> nat) option" where
  "rx i [] n s = Some ([], n)"
| "rx i (Lit l # r) n s =
     (if lit_match i l s then rx i r (n + length l) (drop (length l) s) else None)"
| "rx i (Open # r) n s =
     (case rx i r n s of None \<Rightarrow> None | Some (ms, e) \<Rightarrow> Some (n # ms, e))"
| "rx i (Close # r) n s =
     (case rx i r n s of None \<Rightarrow> None | Some (ms, e) \<Rightarrow> Some (n # ms, e))"
| "rx i (Star c # r) n [] = rx i r n []"
| "rx i (Star c # r) n (x # xs) =
     (if in_class i c x
      then (case rx i (Star c # r) (Suc n) xs of
              Some m \<Rightarrow> Some m
            | None \<Rightarrow> rx i r n (x # xs))
      else rx i r n (x # xs))"
| "rx i (Plus c # r) n [] = None"
| "rx i (Plus c # r) n (x # xs) =
     (if in_class i c x then rx i (Star c # r) (Suc n) xs else None)"
| "rx i (LazyStar c # r) n [] = rx i r n []"
| "rx i (LazyStar c # r) n (x # xs) =
     (case rx i r n (x # xs) of
        Some m \<Rightarrow> Some m
      | None \<Rightarrow> if in_class i c x then rx i (LazyStar c # r) (Suc n) xs else None)"
| "rx i (Alt [] # r) n s = None"
| "rx i (Alt (l # ls) # r) n s =
     (case (if lit_match i l s then rx i r (n + length l) (drop (length l) s) else None) of
        Some m \<Rightarrow> Some m
      | None \<Rightarrow> rx i (Alt ls # r) n s)"
| "rx i (AheadEnd ls # r) n s =
     (if s = [] \<or> list_ex (\<lambda>l. lit_match i l s) ls then rx i r n s else None)"
  by pat_completeness auto
termination
  by (relation "measures [\<lambda>(i, r, n, s). sum_list (map item_weight r),
                          \<lambda>(i, r, n, s). length s]")
     auto

text \<open>The leftmost match: the first index at which the pattern matches, as
  \<open>RegExp.prototype.exec\<close> finds it.\<close>

fun search ::
  "bool \<Rightarrow> item list \<Rightarrow> nat \<Rightarrow> jsstring \<Rightarrow> (nat \<times> nat list \<times> nat) option" where
  "search i r n [] =
     (case rx i r n [] of None \<Rightarrow> None | Some (ms, e) \<Rightarrow> Some (n, ms, e))"
| "search i r n (x # xs) =
     (case rx i r n (x # xs) of
        Some (ms, e) \<Rightarrow> Some (n, ms, e)
      | None \<Rightarrow> search i r (Suc n) xs)"

definition slice :: "jsstring \<Rightarrow> nat \<Rightarrow> nat \<Rightarrow> jsstring" where
  "slice t a b = take (b - a) (drop a t)"

fun groups :: "jsstring \<Rightarrow> nat list \<Rightarrow> jsstring list" where
  "groups t (a # b # ms) = slice t a b # groups t ms"
| "groups t _ = []"

text \<open>\<open>text.match(re)\<close> for a pattern without the flag \<open>g\<close>: \<open>None\<close> is \<open>null\<close>, otherwise
  the array of the whole match followed by the captured groups.\<close>

definition js_match :: "bool \<Rightarrow> item list \<Rightarrow> jsstring \<Rightarrow> jsstring list option" where
  "js_match i r t =
     (case search i r 0 t of
        None \<Rightarrow> None
      | Some (k, ms, e) \<Rightarrow> Some (slice t k e # groups t ms))"

text \<open>\<open>text.replace(re, '')\<close> for a pattern with the flag \<open>g\<close>: every match, found from
  left to right in one pass, is removed; after an empty match the scan moves on by one
  code unit.\<close>

fun replace_all :: "bool \<Rightarrow> item list \<Rightarrow> jsstring \<Rightarrow> jsstring" where
  "replace_all i r [] = []"
| "replace_all i r (x # xs) =
     (case rx i r 0 (x # xs) of
        None \<Rightarrow> x # replace_all i r xs
      | Some (ms, e) \<Rightarrow>
          if e = 0 then x # replace_all i r xs else replace_all i r (drop e (x # xs)))"

text \<open>\<open>Array.from(text.matchAll(re))\<close>: the successive matches, each as the index where it
  starts, the indices of its parentheses and the index where it ends.\<close>

fun match_all ::
  "bool \<Rightarrow> item list \<Rightarrow> nat \<Rightarrow> jsstring \<Rightarrow> (nat \<times> nat list \<times> nat) list" where
  "match_all i r n [] =
     (case rx i r n [] of None \<Rightarrow> [] | Some (ms, e) \<Rightarrow> [(n, ms, e)])"
| "match_all i r n (x # xs) =
     (case rx i r n (x # xs) of
        None \<Rightarrow> match_all i r (Suc n) xs
      | Some (ms, e) \<Rightarrow>
          if e \<le> n then (n, ms, e) # match_all i r (Suc n) xs
          else (n, ms, e) # match_all i r e (drop (e - n) (x # xs)))"

text \<open>\<open>String.prototype.trim\<close>\<close>

definition trim :: "jsstring \<Rightarrow> jsstring" where
  "trim s = rev (dropWhile is_space (rev (dropWhile is_space s)))"

text \<open>\<open>String.prototype.toLowerCase\<close> on ASCII text.\<close>

definition toLowerCase :: "jsstring \<Rightarrow> jsstring" where
  "toLowerCase s = map (\<lambda>c. if is_upper c then c + 32 else c) s"

subsection \<open>The patterns\<close>

text \<open>\<open>/\{award_points:\s*(\d+),\s*type:\s*"([^"]+)"\}/\<close> (POST /api/dialogue); code unit 34
  is the double quote, 125 the closing brace.\<close>

definition award_points_rx :: "item list" where
  "award_points_rx =
     [Lit (js ''{award_points:''), Star Space, Open, Plus Digit, Close, Lit (js '',''),
      Star Space, Lit (js ''type:''), Star Space, Lit [34], Open, Plus (NotChar 34), Close,
      Lit [34, 125]]"

text \<open>\<open>/\{award_points:\s*\d+,\s*type:\s*"[^"]+"\}/g\<close>, used to clean the reply\<close>

definition award_points_clean_rx :: "item list" where
  "award_points_clean_rx =
     [Lit (js ''{award_points:''), Star Space, Plus Digit, Lit (js '',''),
      Star Space, Lit (js ''type:''), Star Space, Lit [34], Plus (NotChar 34), Lit [34, 125]]"

text \<open>\<open>/\[badge:\s*([a-z_]+)\]/i\<close> and \<open>/\[badge:\s*[a-z_]+\]/gi\<close>\<close>

definition badge_rx :: "item list" where
  "badge_rx =
     [Lit (js ''[badge:''), Star Space, Open, Plus LowerUnderscore, Close, Lit (js '']'')]"

definition badge_clean_rx :: "item list" where
  "badge_clean_rx = [Lit (js ''[badge:''), Star Space, Plus LowerUnderscore, Lit (js '']'')]"

text \<open>\<open>/\{award_points:\s*(\d+),\s*type:\s*""([^"]+)"\}/\<close> (POST /api/health-nut/dialogue):
  the source has two double quotes before the second group.\<close>

definition hn_award_points_rx :: "item list" where
  "hn_award_points_rx =
     [Lit (js ''{award_points:''), Star Space, Open, Plus Digit, Close, Lit (js '',''),
      Star Space, Lit (js ''type:''), Star Space, Lit [34, 34], Open, Plus (NotChar 34), Close,
      Lit [34, 125]]"

text \<open>\<open>/\{table:\s*({[^}]+})\}/\<close>\<close>

definition table_rx :: "item list" where
  "table_rx =
     [Lit (js ''{table:''), Star Space, Open, Lit (js ''{''), Plus (NotChar 125), Lit (js ''}''),
      Close, Lit (js ''}'')]"

text \<open>\<open>/(Qaylee|Plato):\s*([\s\S]*?)(?=(?:Qaylee:|Plato:|$))/g\<close>\<close>

definition message_rx :: "item list" where
  "message_rx =
     [Open, Alt [js ''Qaylee'', js ''Plato''], Close, Lit (js '':''), Star Space,
      Open, LazyStar AnyChar, Close, AheadEnd [js ''Qaylee:'', js ''Plato:'']]"

text \<open>\<open>/\{award_points:.*?\}/g\<close> and \<open>/\{table:.*?\}/g\<close>\<close>

definition hn_award_points_clean_rx :: "item list" where
  "hn_award_points_clean_rx = [Lit (js ''{award_points:''), LazyStar Dot, Lit (js ''}'')]"

definition hn_table_clean_rx :: "item list" where
  "hn_table_clean_rx = [Lit (js ''{table:''), LazyStar Dot, Lit (js ''}'')]"

text \<open>\<open>/\[TOTAL: \+(\d+)\]/i\<close>, \<open>/\[Score: \+(\d+)\]/i\<close> and
  \<open>/\[REASONING \+(\d+):[^\]]*\]/i\<close> with its two siblings (POST
  /api/thought-zombies/dialogue); code unit 93 is the closing bracket.\<close>

definition totalScoreRegex :: "item list" where
  "totalScoreRegex = [Lit (js ''[TOTAL: +''), Open, Plus Digit, Close, Lit (js '']'')]"

definition oldScoreRegex :: "item list" where
  "oldScoreRegex = [Lit (js ''[Score: +''), Open, Plus Digit, Close, Lit (js '']'')]"

definition category_rx :: "jsstring \<Rightarrow> item list" where
  "category_rx name =
     [Lit (js ''['' @ name @ js '' +''), Open, Plus Digit, Close, Lit (js '':''),
      Star (NotChar 93), Lit (js '']'')]"

definition reasoningRegex :: "item list" where
  "reasoningRegex = category_rx (js ''REASONING'')"

definition engagementRegex :: "item list" where
  "engagementRegex = category_rx (js ''ENGAGEMENT'')"

definition bonusRegex :: "item list" where
  "bonusRegex = category_rx (js ''BONUS'')"

section \<open>The dialogue handlers\<close>

text \<open>
  A handler answers 401 to an unauthenticated request, 500 when anything inside its
  \<open>try\<close> throws, and 200 with a body otherwise. The reply of the text service is an
  input of the model: \<open>None\<close> when the call throws, or when building the prompt from
  the request body throws before it (a history that is not an array of entries).
\<close>

datatype 'a http = Unauthorized | ServerError | Ok 'a

text \<open>The bodies are modelled as the handlers pass them to \<open>res.json\<close>; in the JSON text a
  Number \<open>Infinity\<close> is written as \<open>null\<close>.\<close>

record points_award =
  amount :: enat
  award_type :: jsstring

subsection \<open>POST /api/dialogue\<close>

text \<open>Lines 311-319: the point award of the reply. A match of the pattern always has
  its two groups; the last case is there for totality only.\<close>

definition extract_points :: "jsstring \<Rightarrow> points_award option" where
  "extract_points aiResponse =
     (case js_match False award_points_rx aiResponse of
        Some (m0 # m1 # m2 # _) \<Rightarrow> Some \<lparr>amount = parseInt m1, award_type = trim m2\<rparr>
      | _ \<Rightarrow> None)"

text \<open>Lines 322-325: \<open>badgeMatch && badgeMatch[1]\<close>, then \<open>badgeMatch[1].trim()\<close>.\<close>

definition extract_badge_type :: "jsstring \<Rightarrow> jsstring option" where
  "extract_badge_type aiResponse =
     (case js_match True badge_rx aiResponse of
        Some (m0 # m1 # _) \<Rightarrow> if m1 \<noteq> [] then Some (trim m1) else None
      | _ \<Rightarrow> None)"

text \<open>Lines 378-381: the display text.\<close>

definition cleanedResponse :: "jsstring \<Rightarrow> jsstring" where
  "cleanedResponse aiResponse =
     trim (replace_all True badge_clean_rx (replace_all False award_points_clean_rx aiResponse))"

text \<open>Lines 385-386: \<open>totalPoints = points?.amount || 0\<close> and the completion test on the
  length of \<open>dialogueHistory\<close>.\<close>

definition dialogue_isComplete :: "nat \<Rightarrow> points_award option \<Rightarrow> bool" where
  "dialogue_isComplete historyLength points =
     (let totalPoints = (case points of None \<Rightarrow> 0 | Some p \<Rightarrow> amount p)
      in historyLength \<ge> 8 \<and> totalPoints \<ge> 30)"

record dialogue_response =
  dr_response :: jsstring
  dr_points :: "points_award option"
  dr_badge :: "badge_row option"
  dr_isComplete :: bool

text \<open>\<open>newId\<close> is the id that the sequence of \<open>user_badges.id\<close> hands out if the badge
  flow inserts a row.\<close>

definition dialogue ::
  "int option \<Rightarrow> 'h list \<Rightarrow> jsstring option \<Rightarrow> int \<Rightarrow> db \<Rightarrow> dialogue_response http \<times> db" where
  "dialogue auth dialogueHistory ai newId d =
     (case auth of
        None \<Rightarrow> (Unauthorized, d)
      | Some uid \<Rightarrow>
          (case ai of
             None \<Rightarrow> (ServerError, d)
           | Some aiResponse \<Rightarrow>
               (let points = extract_points aiResponse;
                    (badge, d') = (case extract_badge_type aiResponse of
                                     None \<Rightarrow> (None, d)
                                   | Some badgeType \<Rightarrow>
                                       (case dialogue_award_badge uid badgeType newId d of
                                          ((l, b), d') \<Rightarrow> (b, d')))
                in (Ok \<lparr>dr_response = cleanedResponse aiResponse, dr_points = points,
                         dr_badge = badge,
                         dr_isComplete = dialogue_isComplete (length dialogueHistory) points\<rparr>,
                    d'))))"

subsection \<open>POST /api/health-nut/dialogue\<close>

definition hn_extract_points :: "jsstring \<Rightarrow> points_award option" where
  "hn_extract_points aiResponse =
     (case js_match False hn_award_points_rx aiResponse of
        Some (m0 # m1 # m2 # _) \<Rightarrow> Some \<lparr>amount = parseInt m1, award_type = trim m2\<rparr>
      | _ \<Rightarrow> None)"

text \<open>
  Lines 1389 and 1401-1407. \<open>JSON.parse\<close> is a parameter: \<open>json_parse p = None\<close> when it
  throws on the payload \<open>p\<close>. The \<open>catch\<close> around it logs and leaves \<open>table = null\<close>.
\<close>

definition extract_table :: "(jsstring \<Rightarrow> 'j option) \<Rightarrow> jsstring \<Rightarrow> 'j option" where
  "extract_table json_parse aiResponse =
     (case js_match False table_rx aiResponse of
        Some (m0 # m1 # _) \<Rightarrow>
          (case json_parse m1 of Some v \<Rightarrow> Some v | None \<Rightarrow> None)
      | _ \<Rightarrow> None)"

datatype speaker = qaylee | plato

record 'j hn_message =
  hm_speaker :: speaker
  hm_content :: jsstring
  hm_table :: "'j option"

text \<open>Lines 1410-1425: one message per match of the speaker pattern. The first group is
  \<open>Qaylee\<close> or \<open>Plato\<close>; \<open>speaker.toLowerCase()\<close> is compared with \<open>'plato'\<close>.\<close>

definition cleanContent :: "jsstring \<Rightarrow> jsstring" where
  "cleanContent content =
     replace_all False hn_table_clean_rx
       (replace_all False hn_award_points_clean_rx (trim content))"

definition formattedMessages :: "'j option \<Rightarrow> jsstring \<Rightarrow> 'j hn_message list" where
  "formattedMessages table aiResponse =
     map (\<lambda>(k, ms, e).
            (case groups aiResponse ms of
               sp # content # _ \<Rightarrow>
                 (let speakerType = (if toLowerCase sp = js ''plato'' then plato else qaylee)
                  in \<lparr>hm_speaker = speakerType, hm_content = cleanContent content,
                      hm_table = (if speakerType = plato then table else None)\<rparr>)
             | _ \<Rightarrow> \<lparr>hm_speaker = qaylee, hm_content = [], hm_table = None\<rparr>))
         (match_all False message_rx 0 aiResponse)"

definition health_nut_isComplete :: "nat \<Rightarrow> points_award option \<Rightarrow> bool" where
  "health_nut_isComplete historyLength points =
     (historyLength \<ge> 8 \<and> (case points of None \<Rightarrow> 0 | Some p \<Rightarrow> amount p) \<ge> 30)"

record 'j hn_response =
  hn_messages :: "'j hn_message list"
  hn_points :: "points_award option"
  hn_isComplete :: bool

definition health_nut_dialogue ::
  "(jsstring \<Rightarrow> 'j option) \<Rightarrow> int option \<Rightarrow> 'h list \<Rightarrow> jsstring option
     \<Rightarrow> 'j hn_response http" where
  "health_nut_dialogue json_parse auth dialogueHistory ai =
     (case auth of
        None \<Rightarrow> Unauthorized
      | Some uid \<Rightarrow>
          (case ai of
             None \<Rightarrow> ServerError
           | Some aiResponse \<Rightarrow>
               (let points = hn_extract_points aiResponse;
                    table = extract_table json_parse aiResponse
                in Ok \<lparr>hn_messages = formattedMessages table aiResponse, hn_points = points,
                       hn_isComplete =
                         health_nut_isComplete (length dialogueHistory) points\<rparr>)))"

subsection \<open>POST /api/thought-zombies/dialogue\<close>

text \<open>The first group of a match, when the match exists and the group is not the empty
  string (\<open>m && m[1]\<close>).\<close>

definition group1 :: "jsstring list option \<Rightarrow> jsstring option" where
  "group1 m = (case m of Some (m0 # m1 # _) \<Rightarrow> if m1 \<noteq> [] then Some m1 else None | _ \<Rightarrow> None)"

text \<open>Lines 1546-1586: the score of the reply.\<close>

definition tz_score :: "jsstring \<Rightarrow> enat" where
  "tz_score aiResponse =
     (let totalMatch = js_match True totalScoreRegex aiResponse;
          oldMatch = js_match True oldScoreRegex aiResponse;
          reasoningMatch = js_match True reasoningRegex aiResponse;
          engagementMatch = js_match True engagementRegex aiResponse;
          bonusMatch = js_match True bonusRegex aiResponse
      in case group1 totalMatch of
           Some t \<Rightarrow> parseInt t
         | None \<Rightarrow>
             if reasoningMatch \<noteq> None \<or> engagementMatch \<noteq> None \<or> bonusMatch \<noteq> None
             then (let reasoning = (case group1 reasoningMatch of Some g \<Rightarrow> parseInt g | None \<Rightarrow> 0);
                       engagement = (case group1 engagementMatch of Some g \<Rightarrow> parseInt g | None \<Rightarrow> 0);
                       bonus = (case group1 bonusMatch of Some g \<Rightarrow> parseInt g | None \<Rightarrow> 0)
                   in js_plus (js_plus reasoning engagement) bonus)
             else (case group1 oldMatch of Some t \<Rightarrow> parseInt t | None \<Rightarrow> 0))"

text \<open>Lines 1588-1612: the badge named in the reply is looked up; this handler neither
  checks ownership nor inserts a row. The name is made of ASCII letters and underscores,
  which reach the database as they are.\<close>

definition tz_badge :: "db \<Rightarrow> jsstring \<Rightarrow> badge_row option" where
  "tz_badge d aiResponse =
     (case group1 (js_match True badge_rx aiResponse) of
        None \<Rightarrow> None
      | Some m1 \<Rightarrow> badge_by_name d (trim m1))"

record tz_response =
  tz_message :: jsstring
  tz_points :: enat
  tz_badge_row :: "badge_row option"

definition thought_zombies_dialogue ::
  "int option \<Rightarrow> jsstring option \<Rightarrow> db \<Rightarrow> tz_response http" where
  "thought_zombies_dialogue auth ai d =
     (case auth of
        None \<Rightarrow> Unauthorized
      | Some uid \<Rightarrow>
          (case ai of
             None \<Rightarrow> ServerError
           | Some aiResponse \<Rightarrow>
               Ok \<lparr>tz_message = aiResponse, tz_points = tz_score aiResponse,
                   tz_badge_row = tz_badge d aiResponse\<rparr>))"

section \<open>The client\<close>

subsection \<open>The badge service (extractBadgeAward, removeBadgeAwardSyntax)\<close>

text \<open>The keys of \<open>BADGE_INFO\<close>.\<close>

definition BADGE_INFO_keys :: "jsstring list" where
  "BADGE_INFO_keys =
     [js ''reason_giver'', js ''fact_checker'', js ''link_cutter'',
      js ''hidden_premise_hunter'', js ''evidence_expert'']"

definition extractBadgeAward :: "jsstring \<Rightarrow> jsstring option" where
  "extractBadgeAward text =
     (case group1 (js_match True badge_rx text) of
        None \<Rightarrow> None
      | Some m1 \<Rightarrow>
          (let badgeType = toLowerCase m1
           in if badgeType \<in> set BADGE_INFO_keys then Some badgeType else None))"

definition removeBadgeAwardSyntax :: "jsstring \<Rightarrow> jsstring" where
  "removeBadgeAwardSyntax text = trim (replace_all True badge_clean_rx text)"

subsection \<open>The training dialogue (TrainingPhase.tsx)\<close>

text \<open>What the client adds to \<open>auraPoints\<close> for one response of POST /api/dialogue: the
  amount of the award if there is one (\<open>result.points.amount || 0\<close>; an amount
  \<open>Infinity\<close> arrives as \<open>null\<close>), and a bonus of 10 on completion.\<close>

definition auraPoints_step :: "enat \<Rightarrow> dialogue_response \<Rightarrow> enat" where
  "auraPoints_step prev result =
     (let awarded = (case dr_points result of
                       None \<Rightarrow> prev
                     | Some p \<Rightarrow> js_plus prev (case amount p of \<infinity> \<Rightarrow> 0 | enat n \<Rightarrow> enat n))
      in if dr_isComplete result then js_plus awarded 10 else awarded)"

subsection \<open>The debate game (ThoughtZombiesGame.tsx)\<close>

text \<open>
  A badge as the client holds it in \<open>earnedBadges\<close>: the properties \<open>id\<close> and \<open>name\<close> of the
  JSON object. The objects come from two places. \<open>GET /api/user-badges\<close> (the initial
  value of \<open>earnedBadges\<close>) selects \<open>id: userBadges.id\<close> and \<open>name: badges.name\<close> from the
  join of \<open>user_badges\<close> and \<open>badges\<close>, newest first; the dialogue response carries a row
  of \<open>badges\<close>, whose \<open>id\<close> is \<open>badges.id\<close>.
\<close>

record client_badge =
  cb_id :: int
  cb_name :: jsstring

definition user_badges_endpoint :: "db \<Rightarrow> int \<Rightarrow> client_badge list" where
  "user_badges_endpoint d uid =
     rev (concat (map (\<lambda>r. map (\<lambda>b. \<lparr>cb_id = ub_id r, cb_name = b_name b\<rparr>)
                               (filter (\<lambda>b. b_id b = badgeId r) (badges d)))
                      (filter (\<lambda>r. userId r = uid) (userBadges d))))"

definition badge_of_row :: "badge_row \<Rightarrow> client_badge" where
  "badge_of_row b = \<lparr>cb_id = b_id b, cb_name = b_name b\<rparr>"

datatype game_stage = intro | argue_own | results

text \<open>Lines 618-620 of \<open>handleSubmitResponse\<close>.\<close>

definition badgeCount :: "client_badge list \<Rightarrow> client_badge option \<Rightarrow> nat" where
  "badgeCount earnedBadges badgeFromResponse =
     (case badgeFromResponse of
        Some bd \<Rightarrow>
          length earnedBadges + (if list_ex (\<lambda>b. cb_id b = cb_id bd) earnedBadges then 0 else 1)
      | None \<Rightarrow> length earnedBadges)"

text \<open>Lines 577 and 623-625: the new session score and the stage after the reply;
  \<open>nextStage\<close> starts as \<open>gameStage\<close>, and \<open>sessionScore\<close> is the state \<open>totalScore\<close> of the
  component (the score of this game instance).\<close>

definition nextStage ::
  "game_stage \<Rightarrow> nat \<Rightarrow> nat \<Rightarrow> nat \<Rightarrow> nat \<Rightarrow> client_badge list \<Rightarrow> client_badge option
     \<Rightarrow> game_stage" where
  "nextStage gameStage sessionScore reasoningPoints engagementPoints bonusPoints
       earnedBadges badgeFromResponse =
     (let newTotalScore = sessionScore + reasoningPoints + engagementPoints + bonusPoints
      in if newTotalScore \<ge> 100 \<or> badgeCount earnedBadges badgeFromResponse \<ge> 5
         then results else gameStage)"

section \<open>Sessions used in the evaluations\<close>

text \<open>A reply of the training dialogue that awards 7 points.\<close>

definition reply7 :: jsstring where
  "reply7 = js ''{award_points: 7, type: '' @ [34] @ js ''counter_u'' @ [34]
            @ js ''} But is that always so?''"

text \<open>The cumulative points of a session: the sum of the amounts awarded by its
  replies.\<close>

definition cumulativePoints :: "points_award option list \<Rightarrow> enat" where
  "cumulativePoints awards = (\<Sum>p\<leftarrow>awards. case p of None \<Rightarrow> 0 | Some a \<Rightarrow> amount a)"

definition empty_db :: db where
  "empty_db = \<lparr>users = [], badges = [], userBadges = []\<rparr>"

text \<open>A database with the five seeded badges, in which user 1 owns four of them; the
  rows of \<open>user_badges\<close> have the ids 11 to 14.\<close>

definition seeded_db :: db where
  "seeded_db =
     \<lparr>users = [\<lparr>u_id = 1, totalScore = 0\<rparr>],
      badges = [\<lparr>b_id = 1, b_name = js ''reason_giver''\<rparr>,
                \<lparr>b_id = 2, b_name = js ''fact_checker''\<rparr>,
                \<lparr>b_id = 3, b_name = js ''link_cutter''\<rparr>,
                \<lparr>b_id = 4, b_name = js ''hidden_premise_hunter''\<rparr>,
                \<lparr>b_id = 5, b_name = js ''evidence_expert''\<rparr>],
      userBadges = [\<lparr>ub_id = 11, userId = 1, badgeId = 1, gameType = js ''thought_zombies''\<rparr>,
                    \<lparr>ub_id = 12, userId = 1, badgeId = 2, gameType = js ''thought_zombies''\<rparr>,
                    \<lparr>ub_id = 13, userId = 1, badgeId = 3, gameType = js ''thought_zombies''\<rparr>,
                    \<lparr>ub_id = 14, userId = 1, badgeId = 4, gameType = js ''thought_zombies''\<rparr>]\<rparr>"

text \<open>A reply of the debate game that names a badge the user already owns.\<close>

definition reply_badge :: jsstring where
  "reply_badge = js ''[badge: reason_giver] You gave a reason. [TOTAL: +0]''"

section \<open>Token grammars of the specification\<close>

text \<open>
  The specification describes the annotations as tokens embedded in the reply. A token
  grammar is a relation between a token (a string) and the strings it carries. The
  definitions below follow the words of the specification; the patterns of the handlers
  are compared with them in the lemmas named \<open>..._implements\<close>.

  Letters of the fixed parts are compared up to case where the pattern carries the flag
  \<open>i\<close>.
\<close>

definition ci_equal :: "jsstring \<Rightarrow> jsstring \<Rightarrow> bool" where
  "ci_equal a b \<longleftrightarrow> map canon a = map canon b"

text \<open>A token occurs in a text at an index; the first token is the one at the least
  index; a text may hold no token at all.\<close>

definition token_at :: "(jsstring \<Rightarrow> 'a \<Rightarrow> bool) \<Rightarrow> jsstring \<Rightarrow> nat \<Rightarrow> 'a \<Rightarrow> bool" where
  "token_at tok t k v \<longleftrightarrow> (\<exists>w post. drop k t = w @ post \<and> k \<le> length t \<and> tok w v)"

definition first_token :: "(jsstring \<Rightarrow> 'a \<Rightarrow> bool) \<Rightarrow> jsstring \<Rightarrow> 'a \<Rightarrow> bool" where
  "first_token tok t v \<longleftrightarrow>
     (\<exists>k. token_at tok t k v \<and> (\<forall>j<k. \<forall>v'. \<not> token_at tok t j v'))"

definition no_token :: "(jsstring \<Rightarrow> 'a \<Rightarrow> bool) \<Rightarrow> jsstring \<Rightarrow> bool" where
  "no_token tok t \<longleftrightarrow> (\<forall>k v. \<not> token_at tok t k v)"

text \<open>
  A pattern implements a grammar when, started at any index of any text, it matches
  exactly when a token of the grammar begins there, ends where the token ends, and
  captures the strings the token carries.
\<close>

definition implements ::
  "bool \<Rightarrow> item list \<Rightarrow> (jsstring \<Rightarrow> jsstring list \<Rightarrow> bool) \<Rightarrow> bool" where
  "implements i R tok \<longleftrightarrow>
     (\<forall>t n ms e. n \<le> length t \<longrightarrow> rx i R n (drop n t) = Some (ms, e) \<longrightarrow>
        (\<exists>w post. drop n t = w @ post \<and> tok w (groups t ms) \<and> e = n + length w))
   \<and> (\<forall>t n w post gs. n \<le> length t \<longrightarrow> drop n t = w @ post \<longrightarrow> tok w gs \<longrightarrow>
        (\<exists>ms. rx i R n (drop n t) = Some (ms, n + length w) \<and> groups t ms = gs))"

text \<open>The badge token \<open>[badge: name]\<close>: the opening up to case, optional white space, a
  non-empty name of letters and underscores, the closing bracket. It carries the name.\<close>

definition badge_name_char :: "nat \<Rightarrow> bool" where
  "badge_name_char c \<longleftrightarrow> is_lower c \<or> is_upper c \<or> c = 95"

definition badge_token :: "jsstring \<Rightarrow> jsstring list \<Rightarrow> bool" where
  "badge_token w gs \<longleftrightarrow>
     (\<exists>lit ws nm. w = lit @ ws @ nm @ js '']'' \<and> gs = [nm] \<and> ci_equal lit (js ''[badge:'')
        \<and> list_all is_space ws \<and> nm \<noteq> [] \<and> list_all badge_name_char nm)"

text \<open>The point token \<open>{award_points: N, type: "label"}\<close>: white space is optional after
  each colon and after the comma, \<open>N\<close> is a non-empty string of digits, the label a
  non-empty string without double quote. It carries \<open>N\<close> and the label.\<close>

definition points_token :: "jsstring \<Rightarrow> jsstring list \<Rightarrow> bool" where
  "points_token w gs \<longleftrightarrow>
     (\<exists>ws1 ds ws2 ws3 lab.
        w = js ''{award_points:'' @ ws1 @ ds @ js '','' @ ws2 @ js ''type:'' @ ws3
              @ [34] @ lab @ [34, 125]
      \<and> gs = [ds, lab]
      \<and> list_all is_space ws1 \<and> ds \<noteq> [] \<and> list_all is_digit ds
      \<and> list_all is_space ws2 \<and> list_all is_space ws3
      \<and> lab \<noteq> [] \<and> list_all (\<lambda>c. c \<noteq> 34) lab)"

text \<open>The tokens of the multi-category protocol: \<open>[TOTAL: +N]\<close> and \<open>[Score: +N]\<close> (an
  opening up to case, digits, the closing bracket) and \<open>[REASONING +N: text]\<close> with its
  siblings (the text holds no closing bracket). Each carries \<open>N\<close>.\<close>

definition amount_token :: "jsstring \<Rightarrow> jsstring \<Rightarrow> jsstring list \<Rightarrow> bool" where
  "amount_token opening w gs \<longleftrightarrow>
     (\<exists>lit ds. w = lit @ ds @ js '']'' \<and> gs = [ds] \<and> ci_equal lit opening
        \<and> ds \<noteq> [] \<and> list_all is_digit ds)"

definition category_token :: "jsstring \<Rightarrow> jsstring \<Rightarrow> jsstring list \<Rightarrow> bool" where
  "category_token name w gs \<longleftrightarrow>
     (\<exists>lit ds tx. w = lit @ ds @ js '':'' @ tx @ js '']'' \<and> gs = [ds]
        \<and> ci_equal lit (js ''['' @ name @ js '' +'')
        \<and> ds \<noteq> [] \<and> list_all is_digit ds \<and> list_all (\<lambda>c. c \<noteq> 93) tx)"

definition total_token :: "jsstring \<Rightarrow> jsstring list \<Rightarrow> bool" where
  "total_token = amount_token (js ''[TOTAL: +'')"

definition legacy_token :: "jsstring \<Rightarrow> jsstring list \<Rightarrow> bool" where
  "legacy_token = amount_token (js ''[Score: +'')"

definition reasoning_token :: "jsstring \<Rightarrow> jsstring list \<Rightarrow> bool" where
  "reasoning_token = category_token (js ''REASONING'')"

definition engagement_token :: "jsstring \<Rightarrow> jsstring list \<Rightarrow> bool" where
  "engagement_token = category_token (js ''ENGAGEMENT'')"

definition bonus_token :: "jsstring \<Rightarrow> jsstring list \<Rightarrow> bool" where
  "bonus_token = category_token (js ''BONUS'')"

text \<open>The amount \<open>N\<close> written in a token is the natural number that its digits denote in
  decimal notation. The amount in the first token of a grammar, and the amount
  "defaulting to 0 when absent".\<close>

definition written_amount :: "jsstring \<Rightarrow> nat" where
  "written_amount ds = (\<Sum>i<length ds. (rev ds ! i - 48) * 10 ^ i)"

definition token_amount ::
  "(jsstring \<Rightarrow> jsstring list \<Rightarrow> bool) \<Rightarrow> jsstring \<Rightarrow> nat \<Rightarrow> bool" where
  "token_amount tok t n \<longleftrightarrow> (\<exists>ds. first_token tok t [ds] \<and> n = written_amount ds)"

definition amount_or_zero ::
  "(jsstring \<Rightarrow> jsstring list \<Rightarrow> bool) \<Rightarrow> jsstring \<Rightarrow> nat \<Rightarrow> bool" where
  "amount_or_zero tok t n \<longleftrightarrow> token_amount tok t n \<or> (no_token tok t \<and> n = 0)"

text \<open>The character set "lowercase letters and underscore".\<close>

definition lower_or_underscore :: "nat \<Rightarrow> bool" where
  "lower_or_underscore c \<longleftrightarrow> is_lower c \<or> c = 95"

subsection \<open>The ledger\<close>

text \<open>
  A text that the database stores as it is written: no code unit 0 and no surrogate.
  The context tag of a call is the value of \<open>game_type\<close> that the call asks for; it is
  defined for the calls whose tag is such a text of at most 50 code units.
\<close>

definition plain_text :: "jsstring \<Rightarrow> bool" where
  "plain_text s \<longleftrightarrow> (\<forall>c\<in>set s. c \<noteq> 0 \<and> \<not> (55296 \<le> c \<and> c \<le> 57343))"

definition contextTag :: "ledger_path \<Rightarrow> jsstring option" where
  "contextTag path =
     (case path of
        ViaDialogue \<Rightarrow> Some (js ''thought_zombies'')
      | ViaAwardBadge Absent \<Rightarrow> Some (js ''thought_zombies'')
      | ViaAwardBadge JsNull \<Rightarrow> None
      | ViaAwardBadge (Given g) \<Rightarrow> if plain_text g \<and> length g \<le> 50 then Some g else None)"

text \<open>The table token \<open>{table: {...}}\<close>: the opening, optional white space, and a payload
  that starts with an opening brace, holds no closing brace inside and ends with one,
  followed by the closing brace of the token. It carries the payload with its braces.\<close>

definition table_token :: "jsstring \<Rightarrow> jsstring list \<Rightarrow> bool" where
  "table_token w gs \<longleftrightarrow>
     (\<exists>ws body. w = js ''{table:'' @ ws @ [123] @ body @ [125, 125]
        \<and> gs = [[123] @ body @ [125]]
        \<and> list_all is_space ws \<and> body \<noteq> [] \<and> list_all (\<lambda>c. c \<noteq> 125) body)"

text \<open>A reply of the health-nut dialogue whose table token holds a payload that is not
  JSON.\<close>

definition reply_table :: jsstring where
  "reply_table = js ''Plato: Look at this. {table: {oops}} Qaylee: I see.''"

text \<open>A reply of the health-nut dialogue that awards 4 points in the syntax that the
  prompt of the handler prescribes (\<open>{award_points: 4, type: "clear"}\<close>).\<close>

definition reply_clear :: jsstring where
  "reply_clear = js ''Plato: Well explained. {award_points: 4, type: '' @ [34] @ js ''clear''
                 @ [34] @ js ''}''"

text \<open>A reply of the training dialogue in which a badge token stands inside a point
  token.\<close>

definition reply_nested :: jsstring where
  "reply_nested = js ''Good. {award_points: 1, [badge: fact_checker]type: '' @ [34] @ js ''a''
                  @ [34] @ js ''}''"

section \<open>The score of the specification\<close>

subsection \<open>What the specification says the score is\<close>

text \<open>A question id is reversed in the reference set when some question with that id
  carries the flag.\<close>

definition reversed_in :: "aot_question list \<Rightarrow> int \<Rightarrow> bool" where
  "reversed_in questions i = (\<exists>q \<in> set questions. q_id q = i \<and> isReversed q)"

definition clamp16 :: "int \<Rightarrow> int" where
  "clamp16 v = (if v < 1 then 1 else if 6 < v then 6 else v)"

definition spec_score :: "aot_question list \<Rightarrow> aot_response list \<Rightarrow> int" where
  "spec_score questions responses =
     (\<Sum>r\<leftarrow>responses. if reversed_in questions (questionId r)
                      then 7 - clamp16 (response r) else clamp16 (response r))"

subsection \<open>Lemmas\<close>

lemma validResponse_clamp16: "validResponse v = clamp16 v"
  by (simp add: validResponse_def clamp16_def)

lemma fold_add_sum_list:
  "fold (\<lambda>r (t::int). t + f r) rs a = a + sum_list (map f rs)"
  by (induction rs arbitrary: a) simp_all

lemma reversedMap_snoc:
  "reversedMap (qs @ [q]) = (reversedMap qs)(q_id q \<mapsto> isReversed q)"
  by (simp add: reversedMap_def)

lemma reversedMap_other: "i \<notin> q_id ` set qs \<Longrightarrow> reversedMap qs i = None"
proof (induction qs rule: rev_induct)
  case Nil
  show ?case by (simp add: reversedMap_def)
next
  case (snoc q qs)
  then have "i \<noteq> q_id q" and "reversedMap qs i = None" by auto
  then show ?case by (simp add: reversedMap_snoc)
qed

lemma reversedMap_distinct:
  "distinct (map q_id qs) \<Longrightarrow> q \<in> set qs \<Longrightarrow>
   reversedMap qs (q_id q) = Some (isReversed q)"
proof (induction qs rule: rev_induct)
  case Nil
  then show ?case by simp
next
  case (snoc a qs)
  show ?case
  proof (cases "q = a")
    case True
    then show ?thesis by (simp add: reversedMap_snoc)
  next
    case False
    with snoc.prems have qin: "q \<in> set qs" and d: "distinct (map q_id qs)" by auto
    from snoc.prems qin have "q_id q \<noteq> q_id a" by (auto simp: image_iff)
    moreover from snoc.IH [OF d qin] have "reversedMap qs (q_id q) = Some (isReversed q)" .
    ultimately show ?thesis by (simp add: reversedMap_snoc)
  qed
qed

lemma reversedMap_lookup:
  assumes "distinct (map q_id qs)"
  shows "(case reversedMap qs i of None \<Rightarrow> False | Some b \<Rightarrow> b) = reversed_in qs i"
proof (cases "i \<in> q_id ` set qs")
  case True
  then obtain q where q: "q \<in> set qs" "q_id q = i" by auto
  have "reversedMap qs i = Some (isReversed q)"
    using reversedMap_distinct [OF assms q(1)] q(2) by simp
  moreover have "reversed_in qs i = isReversed q"
  proof -
    have inj: "inj_on q_id (set qs)" using assms by (simp add: distinct_map)
    have uniq: "q' = q" if a: "q' \<in> set qs" "q_id q' = i" for q'
    proof -
      from a(2) q(2) have "q_id q' = q_id q" by simp
      with inj show "q' = q" using a(1) q(1) by (rule inj_onD)
    qed
    show ?thesis
    proof
      assume "reversed_in qs i"
      then obtain q' where q': "q' \<in> set qs" "q_id q' = i" "isReversed q'"
        unfolding reversed_in_def by blast
      from uniq [OF q'(1,2)] q'(3) show "isReversed q" by simp
    next
      assume "isReversed q"
      with q show "reversed_in qs i" unfolding reversed_in_def by blast
    qed
  qed
  ultimately show ?thesis by simp
next
  case False
  then have "reversedMap qs i = None" by (rule reversedMap_other)
  moreover have "\<not> reversed_in qs i" using False by (auto simp: reversed_in_def)
  ultimately show ?thesis by simp
qed

lemma questionScore_spec:
  assumes "distinct (map q_id qs)"
  shows "questionScore (reversedMap qs) r =
         (if reversed_in qs (questionId r) then 7 - clamp16 (response r) else clamp16 (response r))"
  using reversedMap_lookup [OF assms, of "questionId r"]
  by (simp add: questionScore_def validResponse_clamp16)

lemma questionScore_bounds: "1 \<le> questionScore m r \<and> questionScore m r \<le> 6"
  by (simp add: questionScore_def validResponse_def Let_def)

lemma sum_list_bounds:
  "(\<And>r. (1::int) \<le> f r \<and> f r \<le> 6) \<Longrightarrow>
   int (length rs) \<le> sum_list (map f rs) \<and> sum_list (map f rs) \<le> 6 * int (length rs)"
proof (induction rs)
  case Nil
  then show ?case by simp
next
  case (Cons a rs)
  have "1 \<le> f a \<and> f a \<le> 6" using Cons.prems by blast
  moreover have "int (length rs) \<le> sum_list (map f rs) \<and> sum_list (map f rs) \<le> 6 * int (length rs)"
    using Cons by blast
  ultimately show ?case by simp
qed

lemma calculateAOTScore_value:
  "card (set (map questionId rs)) = length qs \<Longrightarrow>
   calculateAOTScore rs qs = Some (sum_list (map (questionScore (reversedMap qs)) rs))"
  by (simp add: calculateAOTScore_def fold_add_sum_list)

section \<open>Claims about the scorer\<close>

text \<open>
  Claim C1. Let the reference set have pairwise different ids (the primary key of the
  table) and let the responses answer every question of the set exactly once: the
  response ids are pairwise different and are exactly the question ids. Then the scorer
  returns a score (never the sentinel), the score is the sum over the responses of
  \<open>7 - c\<close> for a reversed question and \<open>c\<close> otherwise, where \<open>c\<close> is the response value
  clamped into \<open>[1,6]\<close> (no value is rejected), and the score lies between \<open>n\<close> and \<open>6n\<close>
  for \<open>n\<close> questions (for every input, hence for the in-range ones).
\<close>

theorem calculateAOTScore_complete:
  assumes "distinct (map q_id questions)"
    and "distinct (map questionId responses)"
    and "set (map questionId responses) = set (map q_id questions)"
  shows "calculateAOTScore responses questions = Some (spec_score questions responses)
       \<and> int (length questions) \<le> spec_score questions responses
       \<and> spec_score questions responses \<le> 6 * int (length questions)"
proof -
  have "card (set (map questionId responses)) = length (map questionId responses)"
    using assms(2) by (rule distinct_card)
  then have cr: "card (set (map questionId responses)) = length responses" by simp
  have "card (set (map q_id questions)) = length (map q_id questions)"
    using assms(1) by (rule distinct_card)
  then have cq: "card (set (map q_id questions)) = length questions" by simp
  from cr cq assms(3) have len: "length responses = length questions" by simp
  from cr len have card: "card (set (map questionId responses)) = length questions" by simp
  have "questionScore (reversedMap questions) =
        (\<lambda>r. if reversed_in questions (questionId r)
             then 7 - clamp16 (response r) else clamp16 (response r))"
    by (rule ext) (rule questionScore_spec [OF assms(1)])
  then have spec: "sum_list (map (questionScore (reversedMap questions)) responses)
              = spec_score questions responses"
    unfolding spec_score_def by simp
  have "int (length responses)
          \<le> sum_list (map (questionScore (reversedMap questions)) responses)
      \<and> sum_list (map (questionScore (reversedMap questions)) responses)
          \<le> 6 * int (length responses)"
    by (rule sum_list_bounds) (rule questionScore_bounds)
  then show ?thesis
    using calculateAOTScore_value [OF card] spec len by simp
qed

theorem calculateAOTScore_complete_witness:
  "calculateAOTScore
     [\<lparr>questionId = 2, response = 1\<rparr>, \<lparr>questionId = 1, response = 9\<rparr>]
     [\<lparr>q_id = 1, isReversed = False\<rparr>, \<lparr>q_id = 2, isReversed = True\<rparr>] = Some 12"
  using calculateAOTScore_complete
    [of "[\<lparr>q_id = 1, isReversed = False\<rparr>, \<lparr>q_id = 2, isReversed = True\<rparr>]"
        "[\<lparr>questionId = 2, response = 1\<rparr>, \<lparr>questionId = 1, response = 9\<rparr>]"]
  by (simp add: spec_score_def reversed_in_def clamp16_def insert_commute)

text \<open>
  Claim C6. When the number of distinct answered question ids differs from the number of
  questions, the scorer returns the sentinel \<open>None\<close> (the model has no other failure:
  the source throws nowhere), and the handler reports
  \<open>missing = question count - response count\<close>. When the responses are one fewer than the
  questions, that is \<open>missing = 1\<close>.
\<close>

theorem calculateAOTScore_incomplete:
  "(card (set (map questionId responses)) \<noteq> length questions \<longrightarrow>
      calculateAOTScore responses questions = None
    \<and> complete_questionnaire responses questions
        = Incomplete (int (length questions) - int (length responses)))
 \<and> (length responses + 1 = length questions \<longrightarrow>
      calculateAOTScore responses questions = None
    \<and> complete_questionnaire responses questions = Incomplete 1)"
proof (intro conjI impI)
  assume ne: "card (set (map questionId responses)) \<noteq> length questions"
  then show none: "calculateAOTScore responses questions = None"
    by (simp add: calculateAOTScore_def)
  then show "complete_questionnaire responses questions
        = Incomplete (int (length questions) - int (length responses))"
    by (simp add: complete_questionnaire_def)
next
  assume len: "length responses + 1 = length questions"
  have "card (set (map questionId responses)) \<le> length (map questionId responses)"
    by (rule card_length)
  with len have ne: "card (set (map questionId responses)) \<noteq> length questions" by simp
  then show none: "calculateAOTScore responses questions = None"
    by (simp add: calculateAOTScore_def)
  have "int (length questions) - int (length responses) = 1" using len by simp
  with none show "complete_questionnaire responses questions = Incomplete 1"
    by (simp add: complete_questionnaire_def)
qed

theorem calculateAOTScore_incomplete_witness:
  "calculateAOTScore [\<lparr>questionId = 1, response = 4\<rparr>]
     [\<lparr>q_id = 1, isReversed = False\<rparr>, \<lparr>q_id = 2, isReversed = True\<rparr>] = None
 \<and> complete_questionnaire [\<lparr>questionId = 1, response = 4\<rparr>]
     [\<lparr>q_id = 1, isReversed = False\<rparr>, \<lparr>q_id = 2, isReversed = True\<rparr>] = Incomplete 1"
  using calculateAOTScore_incomplete
    [of "[\<lparr>questionId = 1, response = 4\<rparr>]"
        "[\<lparr>q_id = 1, isReversed = False\<rparr>, \<lparr>q_id = 2, isReversed = True\<rparr>]"]
  by simp

section \<open>Claims about the stored score and the badge ledger\<close>

lemma find_distinct:
  assumes "distinct (map f xs)" and "x \<in> set xs"
  shows "find (\<lambda>y. f y = f x) xs = Some x"
  using assms
proof (induction xs)
  case Nil
  then show ?case by simp
next
  case (Cons a xs)
  show ?case
  proof (cases "a = x")
    case True
    then show ?thesis by simp
  next
    case False
    with Cons.prems have x: "x \<in> set xs" by simp
    then have "f x \<in> f ` set xs" by (rule imageI)
    with Cons.prems(1) have "f a \<noteq> f x" by auto
    with Cons.IH Cons.prems(1) x show ?thesis by simp
  qed
qed

lemma distinct_same_key:
  assumes "distinct (map f xs)" and "x \<in> set xs" and "y \<in> set xs" and "f y = f x"
  shows "y = x"
proof -
  from assms(1) have "inj_on f (set xs)" by (simp add: distinct_map)
  from this assms(4) assms(3) assms(2) show ?thesis by (rule inj_onD)
qed

lemma safePointsToAdd_sum: "t + safePointsToAdd t points = max 0 (t + points)"
  by (simp add: safePointsToAdd_def max_def)

lemma add_to_total_distinct:
  assumes "distinct (map u_id us)" and "u \<in> set us"
  shows "add_to_total (u_id u) delta us
         = map (\<lambda>v. if v = u then u\<lparr>totalScore := totalScore u + delta\<rparr> else v) us"
  unfolding add_to_total_def
proof (rule map_cong [OF refl])
  fix v assume v: "v \<in> set us"
  show "(if u_id v = u_id u then v\<lparr>totalScore := totalScore v + delta\<rparr> else v)
        = (if v = u then u\<lparr>totalScore := totalScore u + delta\<rparr> else v)"
  proof (cases "u_id v = u_id u")
    case True
    from distinct_same_key [OF assms(1) assms(2) v True] show ?thesis by simp
  next
    case False
    then have "v \<noteq> u" by blast
    with False show ?thesis by simp
  qed
qed

lemma matching_rows_distinct:
  assumes "distinct (map u_id us)" and "u \<in> set us"
  shows "list_all (\<lambda>v. u_id v = u_id u \<longrightarrow> P (totalScore v)) us \<longleftrightarrow> P (totalScore u)"
proof
  assume "list_all (\<lambda>v. u_id v = u_id u \<longrightarrow> P (totalScore v)) us"
  with assms(2) show "P (totalScore u)" by (simp add: list_all_iff)
next
  assume p: "P (totalScore u)"
  show "list_all (\<lambda>v. u_id v = u_id u \<longrightarrow> P (totalScore v)) us"
    unfolding list_all_iff
  proof (intro ballI impI)
    fix v assume "v \<in> set us" "u_id v = u_id u"
    from distinct_same_key [OF assms(1) assms(2) this] p show "P (totalScore v)" by simp
  qed
qed

lemma find_map_update:
  assumes "find (\<lambda>v. u_id v = uid) us = Some u"
  shows "find (\<lambda>v. u_id v = uid) (map (\<lambda>v. if v = u then u\<lparr>totalScore := n\<rparr> else v) us)
         = Some (u\<lparr>totalScore := n\<rparr>)"
  using assms by (induction us) (auto split: if_splits)

text \<open>
  Claim C10, amended. Let the authenticated user have a row, with a stored total \<open>t\<close>
  that is not negative, and let \<open>points\<close> be any integer. When \<open>max 0 (t + points)\<close> fits
  the 32-bit column, the handler stores it as the new total of the user (the delta
  applied is \<open>max (- t) points\<close>), leaves every other row as it was and answers with the
  new total. When it does not fit, the handler answers 500 and stores nothing. In both
  cases the stored total of the user is not negative afterwards.
\<close>

theorem update_score_never_negative:
  assumes "distinct (map u_id (users d))" and "u \<in> set (users d)"
    and "0 \<le> totalScore u" and "totalScore u \<le> 2147483647"
  shows "(max 0 (totalScore u + points) \<le> 2147483647 \<longrightarrow>
            update_score (Some (u_id u)) points d
            = (ScoreUpdated (max 0 (totalScore u + points)),
               d\<lparr>users := map (\<lambda>v. if v = u
                                     then u\<lparr>totalScore := max 0 (totalScore u + points)\<rparr>
                                     else v) (users d)\<rparr>))
       \<and> (2147483647 < max 0 (totalScore u + points) \<longrightarrow>
            update_score (Some (u_id u)) points d = (ScoreFailed, d))
       \<and> (\<forall>v\<in>set (users (snd (update_score (Some (u_id u)) points d))).
            u_id v = u_id u \<longrightarrow> 0 \<le> totalScore v)"
proof -
  let ?t = "totalScore u"
  let ?n = "max 0 (?t + points)"
  let ?safe = "safePointsToAdd ?t points"
  let ?d' = "d\<lparr>users := map (\<lambda>v. if v = u then u\<lparr>totalScore := ?n\<rparr> else v) (users d)\<rparr>"
  have cur: "find (\<lambda>v. u_id v = u_id u) (users d) = Some u"
    using find_distinct [OF assms(1) assms(2)] .
  have sum: "?t + ?safe = ?n" by (rule safePointsToAdd_sum)
  have rows: "list_all (\<lambda>v. u_id v = u_id u \<longrightarrow> int4 (totalScore v + ?safe)) (users d)
              \<longleftrightarrow> int4 ?n"
    using matching_rows_distinct [OF assms(1) assms(2), of "\<lambda>x. int4 (x + ?safe)"] sum by simp
  have upd: "add_to_total (u_id u) ?safe (users d) = users ?d'"
    using add_to_total_distinct [OF assms(1) assms(2), of ?safe] sum by simp
  have fits: "update_score (Some (u_id u)) points d = (ScoreUpdated ?n, ?d')" if "?n \<le> 2147483647"
  proof -
    from that have n: "int4 ?n" unfolding int4_def by linarith
    have "?safe = ?n - ?t" using sum by simp
    with that assms(3) assms(4) have s: "int4 ?safe" by (simp add: int4_def max_def split: if_splits)
    have f: "find (\<lambda>v. u_id v = u_id u) (users ?d') = Some (u\<lparr>totalScore := ?n\<rparr>)"
      using find_map_update [OF cur] by simp
    have "d\<lparr>users := add_to_total (u_id u) ?safe (users d)\<rparr> = ?d'"
      using upd by simp
    then show ?thesis
      using cur s n rows f by (simp add: update_score_def Let_def)
  qed
  have over: "update_score (Some (u_id u)) points d = (ScoreFailed, d)" if "2147483647 < ?n"
  proof -
    from that have "\<not> int4 ?n" unfolding int4_def by linarith
    with cur rows show ?thesis by (simp add: update_score_def Let_def)
  qed
  have after: "\<forall>v\<in>set (users (snd (update_score (Some (u_id u)) points d))).
                 u_id v = u_id u \<longrightarrow> 0 \<le> totalScore v"
  proof (cases "?n \<le> 2147483647")
    case True
    show ?thesis
    proof (intro ballI impI)
      fix v assume v: "v \<in> set (users (snd (update_score (Some (u_id u)) points d)))"
        and k: "u_id v = u_id u"
      from v fits [OF True] obtain w where w: "w \<in> set (users d)"
        and vw: "v = (if w = u then u\<lparr>totalScore := ?n\<rparr> else w)" by auto
      show "0 \<le> totalScore v"
      proof (cases "w = u")
        case True
        with vw show ?thesis by simp
      next
        case False
        with vw k have "u_id w = u_id u" by simp
        from distinct_same_key [OF assms(1) assms(2) w this] False show ?thesis by simp
      qed
    qed
  next
    case False
    then have "2147483647 < ?n" by simp
    from over [OF this] show ?thesis
    proof (intro ballI impI)
      fix v assume "update_score (Some (u_id u)) points d = (ScoreFailed, d)"
        and v: "v \<in> set (users (snd (update_score (Some (u_id u)) points d)))"
        and k: "u_id v = u_id u"
      then have "v \<in> set (users d)" by simp
      from distinct_same_key [OF assms(1) assms(2) this k] assms(3) show "0 \<le> totalScore v"
        by simp
    qed
  qed
  from fits over after show ?thesis by blast
qed

theorem update_score_never_negative_witness:
  "update_score (Some 7) (- 1000)
     \<lparr>users = [\<lparr>u_id = 3, totalScore = 5\<rparr>, \<lparr>u_id = 7, totalScore = 40\<rparr>],
      badges = [], userBadges = []\<rparr>
   = (ScoreUpdated 0,
      \<lparr>users = [\<lparr>u_id = 3, totalScore = 5\<rparr>, \<lparr>u_id = 7, totalScore = 0\<rparr>],
       badges = [], userBadges = []\<rparr>)
 \<and> update_score (Some 7) 2147483647
     \<lparr>users = [\<lparr>u_id = 3, totalScore = 5\<rparr>, \<lparr>u_id = 7, totalScore = 40\<rparr>],
      badges = [], userBadges = []\<rparr>
   = (ScoreFailed,
      \<lparr>users = [\<lparr>u_id = 3, totalScore = 5\<rparr>, \<lparr>u_id = 7, totalScore = 40\<rparr>],
       badges = [], userBadges = []\<rparr>)"
  using update_score_never_negative
    [of "\<lparr>users = [\<lparr>u_id = 3, totalScore = 5\<rparr>, \<lparr>u_id = 7, totalScore = 40\<rparr>],
          badges = [], userBadges = []\<rparr>" "\<lparr>u_id = 7, totalScore = 40\<rparr>" "- 1000"]
    update_score_never_negative
    [of "\<lparr>users = [\<lparr>u_id = 3, totalScore = 5\<rparr>, \<lparr>u_id = 7, totalScore = 40\<rparr>],
          badges = [], userBadges = []\<rparr>" "\<lparr>u_id = 7, totalScore = 40\<rparr>" 2147483647]
  by simp

text \<open>
  Claim C10 as it is stated fails for a delta that takes the total past the range of the
  column: with a stored total of 2147483647 and \<open>points = 1\<close> the update is refused, the
  handler answers 500 and the total stays 2147483647, which is not
  \<open>max 0 (2147483647 + 1)\<close>.
\<close>

theorem update_score_overflow_counterexample:
  "update_score (Some 1) 1
     \<lparr>users = [\<lparr>u_id = 1, totalScore = 2147483647\<rparr>], badges = [], userBadges = []\<rparr>
   = (ScoreFailed,
      \<lparr>users = [\<lparr>u_id = 1, totalScore = 2147483647\<rparr>], badges = [], userBadges = []\<rparr>)
 \<and> (2147483647 :: int) \<noteq> max 0 (2147483647 + 1)"
  by (simp add: update_score_def safePointsToAdd_def int4_def)


lemma characters_plain:
  "plain_text s \<Longrightarrow> characters s = map (\<lambda>c. [c]) s"
proof (induction s rule: characters.induct)
  case (1 x y s)
  from "1.prems" have x: "\<not> high_surrogate x" "\<not> low_surrogate x"
    by (auto simp: plain_text_def high_surrogate_def low_surrogate_def)
  from "1.prems" have "plain_text (y # s)" by (simp add: plain_text_def)
  with "1.IH"(2) x have "characters (y # s) = map (\<lambda>c. [c]) (y # s)" by simp
  with x show ?case by simp
next
  case (2 x)
  then show ?case by (auto simp: plain_text_def high_surrogate_def low_surrogate_def)
next
  case 3
  then show ?case by simp
qed

lemma concat_singletons: "concat (map (\<lambda>c. [c]) s) = s"
  by (induction s) simp_all

lemma pg_text_plain: "plain_text s \<Longrightarrow> pg_text s = Some s"
  by (auto simp: pg_text_def characters_plain concat_singletons plain_text_def)

lemma pg_varchar_plain: "plain_text s \<Longrightarrow> length s \<le> n \<Longrightarrow> pg_varchar n s = Some s"
  by (simp add: pg_varchar_def characters_plain)

lemma plain_text_thought_zombies:
  "plain_text (js ''thought_zombies'') \<and> length (js ''thought_zombies'') \<le> 50"
  by (simp add: plain_text_def js_def)

lemma insert_userBadge_plain:
  assumes "plain_text g" and "length g \<le> 50" and "\<forall>r\<in>set (userBadges d). ub_id r \<noteq> newId"
    and "uid \<in> u_id ` set (users d)" and "bid \<in> b_id ` set (badges d)"
  shows "insert_userBadge newId uid bid (Some g) d
         = Some (d\<lparr>userBadges := userBadges d @
                     [\<lparr>ub_id = newId, userId = uid, badgeId = bid, gameType = g\<rparr>]\<rparr>)"
proof -
  from assms(3) have "newId \<notin> ub_id ` set (userBadges d)" by auto
  with assms(1,2,4,5) show ?thesis
    by (simp add: insert_userBadge_def pg_text_plain pg_varchar_plain)
qed

lemma contextTag_plain:
  assumes "contextTag path = Some tag"
  shows "plain_text tag \<and> length tag \<le> 50"
  using assms plain_text_thought_zombies
  by (auto simp: contextTag_def split: ledger_path.splits body_field.splits if_splits)

lemma tryAwardBadge_new:
  assumes name: "badge_by_name d nm = Some b" "nm \<noteq> []" "plain_text nm"
    and none: "existingBadge d uid (b_id b) = []"
    and tag: "contextTag path = Some tag"
    and ins: "insert_userBadge newId uid (b_id b) (Some tag) d = Some d1"
  shows "tryAwardBadge path uid nm newId d = (newlyAwarded b, d1)"
proof (cases path)
  case (ViaAwardBadge game)
  with tag have g: "(case game of Absent \<Rightarrow> Some (js ''thought_zombies'') | JsNull \<Rightarrow> None
                     | Given g \<Rightarrow> Some g) = Some tag"
    by (auto simp: contextTag_def split: body_field.splits if_splits)
  from ViaAwardBadge name none ins show ?thesis
    by (simp add: tryAwardBadge_def award_badge_def pg_text_plain g)
next
  case ViaDialogue
  with tag have "tag = js ''thought_zombies''" by (simp add: contextTag_def)
  with ViaDialogue name none ins show ?thesis
    by (simp add: tryAwardBadge_def dialogue_award_badge_def pg_text_plain)
qed

lemma tryAwardBadge_owned:
  assumes "badge_by_name d nm = Some b" and "nm \<noteq> []" and "plain_text nm"
    and "existingBadge d uid (b_id b) \<noteq> []"
  shows "tryAwardBadge path uid nm newId d = (alreadyOwned, d)"
proof (cases path)
  case (ViaAwardBadge game)
  with assms show ?thesis by (simp add: tryAwardBadge_def award_badge_def pg_text_plain)
next
  case ViaDialogue
  with assms show ?thesis by (simp add: tryAwardBadge_def dialogue_award_badge_def pg_text_plain)
qed

text \<open>
  Claim C4. Let the table \<open>badges\<close> hold a badge \<open>b\<close> under a name that no other badge
  has, let the user have a row in \<open>users\<close> and no row in \<open>user_badges\<close> for \<open>b\<close>, and let
  the first call carry a context tag that the column \<open>game_type\<close> takes. Two successive
  awards of the name to the user, each through either code path, give \<open>newlyAwarded\<close>
  and then \<open>alreadyOwned\<close>: the first call appends one row for the pair
  \<open>(userId, badgeId)\<close> and changes nothing else, the second call changes nothing, and
  exactly one row for the pair exists afterwards.
\<close>

theorem tryAwardBadge_twice:
  assumes "distinct (map b_name (badges d))" and "b \<in> set (badges d)"
    and "b_name b \<noteq> []" and "plain_text (b_name b)"
    and "uid \<in> u_id ` set (users d)"
    and "\<forall>r\<in>set (userBadges d). \<not> (userId r = uid \<and> badgeId r = b_id b)"
    and "\<forall>r\<in>set (userBadges d). ub_id r \<noteq> id1"
    and "contextTag path1 = Some tag"
  shows "\<exists>d1. tryAwardBadge path1 uid (b_name b) id1 d = (newlyAwarded b, d1)
            \<and> d1 = d\<lparr>userBadges := userBadges d @
                       [\<lparr>ub_id = id1, userId = uid, badgeId = b_id b, gameType = tag\<rparr>]\<rparr>
            \<and> tryAwardBadge path2 uid (b_name b) id2 d1 = (alreadyOwned, d1)
            \<and> length (filter (\<lambda>r. userId r = uid \<and> badgeId r = b_id b) (userBadges d1)) = 1"
proof -
  let ?row = "\<lparr>ub_id = id1, userId = uid, badgeId = b_id b, gameType = tag\<rparr>"
  let ?d1 = "d\<lparr>userBadges := userBadges d @ [?row]\<rparr>"
  have known: "badge_by_name d (b_name b) = Some b"
    unfolding badge_by_name_def using find_distinct [OF assms(1) assms(2)] .
  have none: "filter (\<lambda>r. userId r = uid \<and> badgeId r = b_id b) (userBadges d) = []"
    using assms(6) by (simp add: filter_empty_conv)
  from assms(2) have bid: "b_id b \<in> b_id ` set (badges d)" by (rule imageI)
  from contextTag_plain [OF assms(8)] have tag: "plain_text tag" "length tag \<le> 50" by simp_all
  have ins: "insert_userBadge id1 uid (b_id b) (Some tag) d = Some ?d1"
    using insert_userBadge_plain [OF tag assms(7) assms(5) bid] .
  have first: "tryAwardBadge path1 uid (b_name b) id1 d = (newlyAwarded b, ?d1)"
    using known assms(3) assms(4) none assms(8) ins
    by (intro tryAwardBadge_new) (simp_all add: existingBadge_def)
  have rows: "filter (\<lambda>r. userId r = uid \<and> badgeId r = b_id b) (userBadges ?d1) = [?row]"
    using none by simp
  have known1: "badge_by_name ?d1 (b_name b) = Some b"
    using known by (simp add: badge_by_name_def)
  have "existingBadge ?d1 uid (b_id b) \<noteq> []"
    unfolding existingBadge_def rows by simp
  from tryAwardBadge_owned [OF known1 assms(3) assms(4) this]
  have second: "tryAwardBadge path2 uid (b_name b) id2 ?d1 = (alreadyOwned, ?d1)" .
  from rows have "length (filter (\<lambda>r. userId r = uid \<and> badgeId r = b_id b) (userBadges ?d1)) = 1"
    by simp
  with first second show ?thesis by blast
qed

theorem tryAwardBadge_twice_witness:
  "tryAwardBadge (ViaAwardBadge (Given (js ''aura_eater''))) 1 (js ''evidence_expert'') 14
     \<lparr>users = [\<lparr>u_id = 1, totalScore = 0\<rparr>, \<lparr>u_id = 2, totalScore = 30\<rparr>],
      badges = [\<lparr>b_id = 1, b_name = js ''reason_giver''\<rparr>,
                \<lparr>b_id = 2, b_name = js ''fact_checker''\<rparr>,
                \<lparr>b_id = 5, b_name = js ''evidence_expert''\<rparr>],
      userBadges = [\<lparr>ub_id = 11, userId = 1, badgeId = 1, gameType = js ''thought_zombies''\<rparr>,
                    \<lparr>ub_id = 12, userId = 2, badgeId = 5, gameType = js ''thought_zombies''\<rparr>,
                    \<lparr>ub_id = 13, userId = 1, badgeId = 2, gameType = js ''thought_zombies''\<rparr>]\<rparr>
   = (newlyAwarded \<lparr>b_id = 5, b_name = js ''evidence_expert''\<rparr>,
      \<lparr>users = [\<lparr>u_id = 1, totalScore = 0\<rparr>, \<lparr>u_id = 2, totalScore = 30\<rparr>],
       badges = [\<lparr>b_id = 1, b_name = js ''reason_giver''\<rparr>,
                 \<lparr>b_id = 2, b_name = js ''fact_checker''\<rparr>,
                 \<lparr>b_id = 5, b_name = js ''evidence_expert''\<rparr>],
       userBadges = [\<lparr>ub_id = 11, userId = 1, badgeId = 1, gameType = js ''thought_zombies''\<rparr>,
                     \<lparr>ub_id = 12, userId = 2, badgeId = 5, gameType = js ''thought_zombies''\<rparr>,
                     \<lparr>ub_id = 13, userId = 1, badgeId = 2, gameType = js ''thought_zombies''\<rparr>,
                     \<lparr>ub_id = 14, userId = 1, badgeId = 5, gameType = js ''aura_eater''\<rparr>]\<rparr>)
 \<and> tryAwardBadge ViaDialogue 1 (js ''evidence_expert'') 15
     \<lparr>users = [\<lparr>u_id = 1, totalScore = 0\<rparr>, \<lparr>u_id = 2, totalScore = 30\<rparr>],
      badges = [\<lparr>b_id = 1, b_name = js ''reason_giver''\<rparr>,
                \<lparr>b_id = 2, b_name = js ''fact_checker''\<rparr>,
                \<lparr>b_id = 5, b_name = js ''evidence_expert''\<rparr>],
      userBadges = [\<lparr>ub_id = 11, userId = 1, badgeId = 1, gameType = js ''thought_zombies''\<rparr>,
                    \<lparr>ub_id = 12, userId = 2, badgeId = 5, gameType = js ''thought_zombies''\<rparr>,
                    \<lparr>ub_id = 13, userId = 1, badgeId = 2, gameType = js ''thought_zombies''\<rparr>,
                    \<lparr>ub_id = 14, userId = 1, badgeId = 5, gameType = js ''aura_eater''\<rparr>]\<rparr>
   = (alreadyOwned,
      \<lparr>users = [\<lparr>u_id = 1, totalScore = 0\<rparr>, \<lparr>u_id = 2, totalScore = 30\<rparr>],
       badges = [\<lparr>b_id = 1, b_name = js ''reason_giver''\<rparr>,
                 \<lparr>b_id = 2, b_name = js ''fact_checker''\<rparr>,
                 \<lparr>b_id = 5, b_name = js ''evidence_expert''\<rparr>],
       userBadges = [\<lparr>ub_id = 11, userId = 1, badgeId = 1, gameType = js ''thought_zombies''\<rparr>,
                     \<lparr>ub_id = 12, userId = 2, badgeId = 5, gameType = js ''thought_zombies''\<rparr>,
                     \<lparr>ub_id = 13, userId = 1, badgeId = 2, gameType = js ''thought_zombies''\<rparr>,
                     \<lparr>ub_id = 14, userId = 1, badgeId = 5, gameType = js ''aura_eater''\<rparr>]\<rparr>)"
  using tryAwardBadge_twice
    [of "\<lparr>users = [\<lparr>u_id = 1, totalScore = 0\<rparr>, \<lparr>u_id = 2, totalScore = 30\<rparr>],
          badges = [\<lparr>b_id = 1, b_name = js ''reason_giver''\<rparr>,
                    \<lparr>b_id = 2, b_name = js ''fact_checker''\<rparr>,
                    \<lparr>b_id = 5, b_name = js ''evidence_expert''\<rparr>],
          userBadges = [\<lparr>ub_id = 11, userId = 1, badgeId = 1, gameType = js ''thought_zombies''\<rparr>,
                        \<lparr>ub_id = 12, userId = 2, badgeId = 5, gameType = js ''thought_zombies''\<rparr>,
                        \<lparr>ub_id = 13, userId = 1, badgeId = 2, gameType = js ''thought_zombies''\<rparr>]\<rparr>"
        "\<lparr>b_id = 5, b_name = js ''evidence_expert''\<rparr>" 1 14
        "ViaAwardBadge (Given (js ''aura_eater''))" "js ''aura_eater''" ViaDialogue 15]
  by (simp add: js_def plain_text_def contextTag_def)

text \<open>The path that answers 500: a context tag of 51 letters does not fit the column, the
  insert is refused and no row is stored.\<close>

lemma award_badge_tag_too_long:
  "award_badge (Some 1) (Given (js ''evidence_expert'')) (Given (replicate 51 97)) 14
     \<lparr>users = [\<lparr>u_id = 1, totalScore = 0\<rparr>],
      badges = [\<lparr>b_id = 5, b_name = js ''evidence_expert''\<rparr>], userBadges = []\<rparr>
   = (AwardFailed,
      \<lparr>users = [\<lparr>u_id = 1, totalScore = 0\<rparr>],
       badges = [\<lparr>b_id = 5, b_name = js ''evidence_expert''\<rparr>], userBadges = []\<rparr>)"
proof -
  have c: "characters (replicate 51 97) = map (\<lambda>c. [c]) (replicate 51 97)"
    by (rule characters_plain) (simp add: plain_text_def)
  have "pg_text (replicate 51 97) = Some (replicate 51 97)"
    by (rule pg_text_plain) (simp add: plain_text_def)
  moreover have "pg_varchar 50 (replicate 51 97) = None"
    by (simp add: pg_varchar_def c list_all_iff)
  moreover have "pg_text (js ''evidence_expert'') = Some (js ''evidence_expert'')"
    by (rule pg_text_plain) (simp add: plain_text_def js_def)
  ultimately show ?thesis
    by (simp add: award_badge_def insert_userBadge_def badge_by_name_def existingBadge_def js_def)
qed

text \<open>Other answers of POST /api/award-badge with status 500: \<open>gameType: null\<close> violates
  the \<open>not null\<close> constraint, and a user without a row in \<open>users\<close> violates the foreign
  key.\<close>

lemma award_badge_null_tag:
  "award_badge (Some 1) (Given (js ''evidence_expert'')) JsNull 14
     \<lparr>users = [\<lparr>u_id = 1, totalScore = 0\<rparr>],
      badges = [\<lparr>b_id = 5, b_name = js ''evidence_expert''\<rparr>], userBadges = []\<rparr>
   = (AwardFailed,
      \<lparr>users = [\<lparr>u_id = 1, totalScore = 0\<rparr>],
       badges = [\<lparr>b_id = 5, b_name = js ''evidence_expert''\<rparr>], userBadges = []\<rparr>)"
proof -
  have "pg_text (js ''evidence_expert'') = Some (js ''evidence_expert'')"
    by (rule pg_text_plain) (simp add: plain_text_def js_def)
  then show ?thesis
    by (simp add: award_badge_def insert_userBadge_def badge_by_name_def existingBadge_def js_def)
qed

lemma award_badge_unknown_user:
  "award_badge (Some 2) (Given (js ''evidence_expert'')) Absent 14
     \<lparr>users = [\<lparr>u_id = 1, totalScore = 0\<rparr>],
      badges = [\<lparr>b_id = 5, b_name = js ''evidence_expert''\<rparr>], userBadges = []\<rparr>
   = (AwardFailed,
      \<lparr>users = [\<lparr>u_id = 1, totalScore = 0\<rparr>],
       badges = [\<lparr>b_id = 5, b_name = js ''evidence_expert''\<rparr>], userBadges = []\<rparr>)"
proof -
  have "pg_text (js ''evidence_expert'') = Some (js ''evidence_expert'')"
    by (rule pg_text_plain) (simp add: plain_text_def js_def)
  moreover have "pg_text (js ''thought_zombies'') = Some (js ''thought_zombies'')"
    by (rule pg_text_plain) (simp add: plain_text_def js_def)
  moreover have "pg_varchar 50 (js ''thought_zombies'') = Some (js ''thought_zombies'')"
    by (rule pg_varchar_plain) (simp_all add: plain_text_def js_def)
  ultimately show ?thesis
    by (simp add: award_badge_def insert_userBadge_def badge_by_name_def existingBadge_def js_def)
qed

section \<open>Claims about the completion rules\<close>

lemmas rx_eval = js_def is_space_def is_digit_def is_lower_def is_upper_def canon_def
  is_line_terminator_def js_match_def slice_def trim_def toLowerCase_def
  parseInt_def decimal_def to_number_def numeral_eq_enat zero_enat_def

lemma extract_points_reply7:
  "extract_points reply7 = Some \<lparr>amount = 7, award_type = js ''counter_u''\<rparr>"
  by (simp add: reply7_def extract_points_def award_points_rx_def rx_eval)

lemma cleanedResponse_reply7: "cleanedResponse reply7 = js ''But is that always so?''"
  by (simp add: reply7_def cleanedResponse_def award_points_clean_rx_def badge_clean_rx_def
        rx_eval)

lemma extract_badge_type_reply7: "extract_badge_type reply7 = None"
  by (simp add: reply7_def extract_badge_type_def badge_rx_def rx_eval)

text \<open>The rule as the two handlers compute it: on the length of the history and the
  amount awarded by the reply being processed.\<close>

lemma dialogue_isComplete_iff:
  "dialogue_isComplete n p \<longleftrightarrow> n \<ge> 8 \<and> (case p of None \<Rightarrow> 0 | Some a \<Rightarrow> amount a) \<ge> 30"
  by (simp add: dialogue_isComplete_def)

lemma health_nut_isComplete_iff:
  "health_nut_isComplete n p \<longleftrightarrow> n \<ge> 8 \<and> (case p of None \<Rightarrow> 0 | Some a \<Rightarrow> amount a) \<ge> 30"
  by (simp add: health_nut_isComplete_def)

text \<open>
  Claim C5 says that the session is complete if and only if the turn count is at least 8
  and the cumulative points are at least 30. The handlers compare 30 with \<open>totalPoints\<close>,
  which is the amount awarded by the reply being processed, not a total: in the fifth
  exchange of a session whose replies award 7 points each, the history has 8 entries and
  the cumulative points are 35, yet the response carries \<open>isComplete = false\<close>. The same
  test sits in the health-nut handler.
\<close>

theorem isComplete_ignores_earlier_awards:
  "fst (dialogue (Some 1) (replicate 8 m) (Some reply7) newId empty_db)
     = Ok \<lparr>dr_response = js ''But is that always so?'',
            dr_points = Some \<lparr>amount = 7, award_type = js ''counter_u''\<rparr>,
            dr_badge = None, dr_isComplete = False\<rparr>
   \<and> cumulativePoints (replicate 5 (extract_points reply7)) = 35
   \<and> \<not> health_nut_isComplete 8 (Some \<lparr>amount = 7, award_type = js ''counter_u''\<rparr>)"
  by (simp add: dialogue_def extract_points_reply7 cleanedResponse_reply7
        extract_badge_type_reply7 dialogue_isComplete_def health_nut_isComplete_def
        cumulativePoints_def sum_list_replicate)

lemma user_badges_seeded:
  "user_badges_endpoint seeded_db 1 =
     [\<lparr>cb_id = 14, cb_name = js ''hidden_premise_hunter''\<rparr>,
      \<lparr>cb_id = 13, cb_name = js ''link_cutter''\<rparr>,
      \<lparr>cb_id = 12, cb_name = js ''fact_checker''\<rparr>,
      \<lparr>cb_id = 11, cb_name = js ''reason_giver''\<rparr>]"
  by (simp add: user_badges_endpoint_def seeded_db_def)

lemma tz_reply_badge:
  "thought_zombies_dialogue (Some 1) (Some reply_badge) seeded_db
   = Ok \<lparr>tz_message = reply_badge, tz_points = 0,
          tz_badge_row = Some \<lparr>b_id = 1, b_name = js ''reason_giver''\<rparr>\<rparr>"
  by (simp add: thought_zombies_dialogue_def tz_score_def tz_badge_def group1_def
      totalScoreRegex_def oldScoreRegex_def reasoningRegex_def engagementRegex_def bonusRegex_def
      category_rx_def badge_rx_def badge_by_name_def seeded_db_def reply_badge_def rx_eval)

text \<open>The stage changes to \<open>results\<close> exactly on the two thresholds, the second one on
  \<open>badgeCount\<close>.\<close>

lemma nextStage_results_iff:
  "nextStage g t r e b earned resp = results
   \<longleftrightarrow> g = results \<or> t + r + e + b \<ge> 100 \<or> badgeCount earned resp \<ge> 5"
  by (simp add: nextStage_def Let_def)

text \<open>\<open>badgeCount\<close> is the number of distinct badges when the ids held by the client are
  pairwise different and are ids of one kind.\<close>

lemma badgeCount_distinct_ids:
  assumes "distinct (map cb_id earned)"
  shows "badgeCount earned (Some bd) = card (set (map cb_id (earned @ [bd])))"
proof -
  have c: "card (set (map cb_id earned)) = length earned"
    using distinct_card [OF assms] by simp
  have ex: "list_ex (\<lambda>b. cb_id b = cb_id bd) earned \<longleftrightarrow> cb_id bd \<in> set (map cb_id earned)"
  proof
    assume "list_ex (\<lambda>b. cb_id b = cb_id bd) earned"
    then obtain b where b: "b \<in> set earned" "cb_id b = cb_id bd"
      unfolding list_ex_iff by blast
    from b(1) have "cb_id b \<in> cb_id ` set earned" by (rule imageI)
    with b(2) show "cb_id bd \<in> set (map cb_id earned)" by simp
  next
    assume "cb_id bd \<in> set (map cb_id earned)"
    then show "list_ex (\<lambda>b. cb_id b = cb_id bd) earned"
      unfolding list_ex_iff by auto
  qed
  show ?thesis
  proof (cases "cb_id bd \<in> set (map cb_id earned)")
    case True
    then have "insert (cb_id bd) (set (map cb_id earned)) = set (map cb_id earned)" by blast
    with True c ex show ?thesis by (simp add: badgeCount_def)
  next
    case False
    then have "card (insert (cb_id bd) (set (map cb_id earned)))
               = Suc (card (set (map cb_id earned)))" by simp
    with False c ex show ?thesis by (simp add: badgeCount_def)
  qed
qed

text \<open>
  Claim C9 says that the session of the debate game is marked complete exactly when the
  session score reaches 100 or the number of distinct badges earned reaches 5. The
  client counts a badge of the response as new when no entry of \<open>earnedBadges\<close> has its
  \<open>id\<close>; the entries loaded from \<open>GET /api/user-badges\<close> carry the id of the
  \<open>user_badges\<close> row, the badge of the response the id of the \<open>badges\<close> row. For a user
  who owns four badges and is named one of them again by the reply, with no points at
  all, the count is 5 and the stage becomes \<open>results\<close>, although four distinct badges are
  earned.
\<close>

theorem nextStage_counts_owned_badge_again:
  "thought_zombies_dialogue (Some 1) (Some reply_badge) seeded_db
     = Ok \<lparr>tz_message = reply_badge, tz_points = 0,
            tz_badge_row = Some \<lparr>b_id = 1, b_name = js ''reason_giver''\<rparr>\<rparr>
   \<and> nextStage argue_own 0 0 0 0 (user_badges_endpoint seeded_db 1)
        (Some (badge_of_row \<lparr>b_id = 1, b_name = js ''reason_giver''\<rparr>)) = results
   \<and> card (set (map cb_name (user_badges_endpoint seeded_db 1
                 @ [badge_of_row \<lparr>b_id = 1, b_name = js ''reason_giver''\<rparr>]))) = 4"
  by (simp add: tz_reply_badge user_badges_seeded nextStage_def badgeCount_def badge_of_row_def
        js_def)

section \<open>The matcher on unambiguous patterns\<close>

text \<open>
  In every pattern of the handlers a greedy quantifier is followed by something that
  its class cannot begin. Then giving back characters never helps, and the
  backtracking matcher takes the longest run of the class.
\<close>

lemma rx_Star_greedy:
  assumes "\<forall>x xs m. in_class i c x \<longrightarrow> rx i r m (x # xs) = None"
  shows "rx i (Star c # r) n s
         = rx i r (n + length (takeWhile (in_class i c) s)) (dropWhile (in_class i c) s)"
proof (induction s arbitrary: n)
  case Nil
  show ?case by simp
next
  case (Cons x xs)
  show ?case
  proof (cases "in_class i c x")
    case True
    have "rx i r n (x # xs) = None" using True assms by blast
    then have "rx i (Star c # r) n (x # xs) = rx i (Star c # r) (Suc n) xs"
      using True by (simp split: option.split)
    also have "\<dots> = rx i r (Suc n + length (takeWhile (in_class i c) xs))
                        (dropWhile (in_class i c) xs)"
      by (rule Cons.IH)
    finally show ?thesis using True by simp
  next
    case False
    then show ?thesis by simp
  qed
qed

lemma rx_Plus_greedy:
  assumes "\<forall>x xs m. in_class i c x \<longrightarrow> rx i r m (x # xs) = None"
  shows "rx i (Plus c # r) n s
         = (if takeWhile (in_class i c) s = [] then None
            else rx i r (n + length (takeWhile (in_class i c) s)) (dropWhile (in_class i c) s))"
proof (cases s)
  case Nil
  then show ?thesis by simp
next
  case (Cons x xs)
  show ?thesis
  proof (cases "in_class i c x")
    case True
    then show ?thesis using Cons rx_Star_greedy [OF assms, where n = "Suc n" and s = xs] by simp
  next
    case False
    then show ?thesis using Cons by simp
  qed
qed

lemma lit_match_iff:
  "lit_match i l s \<longleftrightarrow>
     length l \<le> length s \<and>
     (if i then map canon (take (length l) s) = map canon l else take (length l) s = l)"
proof (induction i l s rule: lit_match.induct)
  case (1 i s)
  show ?case by simp
next
  case (2 i p ps)
  show ?case by simp
next
  case (3 i p ps c cs)
  then show ?case by (cases i) auto
qed

lemma search_None_iff:
  "search i r n t = None \<longleftrightarrow> (\<forall>j \<le> length t. rx i r (n + j) (drop j t) = None)"
proof (induction t arbitrary: n)
  case Nil
  show ?case by (simp split: option.split)
next
  case (Cons x xs)
  show ?case
  proof (cases "rx i r n (x # xs)")
    case None
    have "(\<forall>j \<le> length (x # xs). rx i r (n + j) (drop j (x # xs)) = None)
          \<longleftrightarrow> (\<forall>j \<le> length xs. rx i r (Suc n + j) (drop j xs) = None)"
    proof
      assume a: "\<forall>j \<le> length (x # xs). rx i r (n + j) (drop j (x # xs)) = None"
      show "\<forall>j \<le> length xs. rx i r (Suc n + j) (drop j xs) = None"
      proof (intro allI impI)
        fix j assume "j \<le> length xs"
        then have "Suc j \<le> length (x # xs)" by simp
        with a have "rx i r (n + Suc j) (drop (Suc j) (x # xs)) = None" by blast
        then show "rx i r (Suc n + j) (drop j xs) = None" by simp
      qed
    next
      assume a: "\<forall>j \<le> length xs. rx i r (Suc n + j) (drop j xs) = None"
      show "\<forall>j \<le> length (x # xs). rx i r (n + j) (drop j (x # xs)) = None"
      proof (intro allI impI)
        fix j assume j: "j \<le> length (x # xs)"
        show "rx i r (n + j) (drop j (x # xs)) = None"
        proof (cases j)
          case 0
          with None show ?thesis by simp
        next
          case (Suc j')
          with j have "j' \<le> length xs" by simp
          with a have "rx i r (Suc n + j') (drop j' xs) = None" by blast
          with Suc show ?thesis by simp
        qed
      qed
    qed
    with None Cons.IH [of "Suc n"] show ?thesis by simp
  next
    case (Some m)
    then have "search i r n (x # xs) \<noteq> None" by (cases m) simp
    moreover have "\<not> (\<forall>j \<le> length (x # xs). rx i r (n + j) (drop j (x # xs)) = None)"
    proof
      assume "\<forall>j \<le> length (x # xs). rx i r (n + j) (drop j (x # xs)) = None"
      then have "rx i r (n + 0) (drop 0 (x # xs)) = None" by blast
      with Some show False by simp
    qed
    ultimately show ?thesis by blast
  qed
qed

lemma search_Some_iff:
  "search i r n t = Some (k, ms, e) \<longleftrightarrow>
     (\<exists>j \<le> length t. k = n + j \<and> rx i r (n + j) (drop j t) = Some (ms, e)
        \<and> (\<forall>j' < j. rx i r (n + j') (drop j' t) = None))"
proof (induction t arbitrary: n)
  case Nil
  show ?case by (auto split: option.split)
next
  case (Cons x xs)
  show ?case
  proof (cases "rx i r n (x # xs)")
    case None
    have "(\<exists>j \<le> length (x # xs). k = n + j \<and> rx i r (n + j) (drop j (x # xs)) = Some (ms, e)
              \<and> (\<forall>j' < j. rx i r (n + j') (drop j' (x # xs)) = None))
          \<longleftrightarrow> (\<exists>j \<le> length xs. k = Suc n + j \<and> rx i r (Suc n + j) (drop j xs) = Some (ms, e)
              \<and> (\<forall>j' < j. rx i r (Suc n + j') (drop j' xs) = None))" (is "?L \<longleftrightarrow> ?R")
    proof
      assume ?L
      then obtain j where j: "j \<le> length (x # xs)" "k = n + j"
        "rx i r (n + j) (drop j (x # xs)) = Some (ms, e)"
        "\<forall>j' < j. rx i r (n + j') (drop j' (x # xs)) = None" by blast
      from j(3) None obtain j0 where j0: "j = Suc j0" by (cases j) auto
      have "\<forall>j' < j0. rx i r (Suc n + j') (drop j' xs) = None"
      proof (intro allI impI)
        fix j' assume "j' < j0"
        then have "Suc j' < j" using j0 by simp
        with j(4) have "rx i r (n + Suc j') (drop (Suc j') (x # xs)) = None" by blast
        then show "rx i r (Suc n + j') (drop j' xs) = None" by simp
      qed
      with j j0 show ?R by (intro exI [of _ j0]) simp
    next
      assume ?R
      then obtain j where j: "j \<le> length xs" "k = Suc n + j"
        "rx i r (Suc n + j) (drop j xs) = Some (ms, e)"
        "\<forall>j' < j. rx i r (Suc n + j') (drop j' xs) = None" by blast
      have "\<forall>j' < Suc j. rx i r (n + j') (drop j' (x # xs)) = None"
      proof (intro allI impI)
        fix j' assume a: "j' < Suc j"
        show "rx i r (n + j') (drop j' (x # xs)) = None"
        proof (cases j')
          case 0
          with None show ?thesis by simp
        next
          case (Suc j'')
          with a have "j'' < j" by simp
          with j(4) have "rx i r (Suc n + j'') (drop j'' xs) = None" by blast
          with Suc show ?thesis by simp
        qed
      qed
      with j show ?L by (intro exI [of _ "Suc j"]) simp
    qed
    with None Cons.IH [of "Suc n"] show ?thesis by simp
  next
    case (Some m)
    obtain ms0 e0 where m: "m = (ms0, e0)" by (cases m)
    have "(\<exists>j \<le> length (x # xs). k = n + j \<and> rx i r (n + j) (drop j (x # xs)) = Some (ms, e)
              \<and> (\<forall>j' < j. rx i r (n + j') (drop j' (x # xs)) = None))
          \<longleftrightarrow> (k = n \<and> ms0 = ms \<and> e0 = e)" (is "?L \<longleftrightarrow> ?R")
    proof
      assume ?L
      then obtain j where j: "j \<le> length (x # xs)" "k = n + j"
        "rx i r (n + j) (drop j (x # xs)) = Some (ms, e)"
        "\<forall>j' < j. rx i r (n + j') (drop j' (x # xs)) = None" by blast
      have "j = 0"
      proof (rule ccontr)
        assume "j \<noteq> 0"
        then have "0 < j" by simp
        with j(4) have "rx i r (n + 0) (drop 0 (x # xs)) = None" by blast
        with Some show False by simp
      qed
      with j Some m show ?R by simp
    next
      assume ?R
      with Some m show ?L by (intro exI [of _ 0]) simp
    qed
    with Some m show ?thesis by auto
  qed
qed

lemma implements_None:
  assumes "implements i R tok"
  shows "js_match i R t = None \<longleftrightarrow> no_token tok t"
proof
  assume "js_match i R t = None"
  then have "search i R 0 t = None"
    by (simp add: js_match_def split: option.splits prod.splits)
  then have none: "\<forall>j \<le> length t. rx i R j (drop j t) = None"
    using search_None_iff [of i R 0 t] by simp
  show "no_token tok t"
    unfolding no_token_def token_at_def
  proof (intro allI notI)
    fix k v assume "\<exists>w post. drop k t = w @ post \<and> k \<le> length t \<and> tok w v"
    then obtain w post where a: "drop k t = w @ post" "k \<le> length t" "tok w v" by blast
    with assms obtain ms where "rx i R k (drop k t) = Some (ms, k + length w)"
      unfolding implements_def by blast
    with none a(2) show False by simp
  qed
next
  assume nt: "no_token tok t"
  have "\<forall>j \<le> length t. rx i R (0 + j) (drop j t) = None"
  proof (intro allI impI)
    fix j assume j: "j \<le> length t"
    show "rx i R (0 + j) (drop j t) = None"
    proof (cases "rx i R j (drop j t)")
      case None
      then show ?thesis by simp
    next
      case (Some m)
      obtain ms e where "m = (ms, e)" by (cases m)
      with Some assms j obtain w post where "drop j t = w @ post" "tok w (groups t ms)"
        unfolding implements_def by blast
      with j have "token_at tok t j (groups t ms)" unfolding token_at_def by blast
      with nt show ?thesis unfolding no_token_def by blast
    qed
  qed
  then have "search i R 0 t = None" by (simp only: search_None_iff)
  then show "js_match i R t = None" by (simp add: js_match_def)
qed

lemma implements_Some:
  assumes "implements i R tok"
  shows "(\<exists>m0. js_match i R t = Some (m0 # gs)) \<longleftrightarrow> first_token tok t gs"
proof
  assume "\<exists>m0. js_match i R t = Some (m0 # gs)"
  then obtain m0 where "js_match i R t = Some (m0 # gs)" by blast
  then obtain k ms e where s: "search i R 0 t = Some (k, ms, e)" and g: "groups t ms = gs"
    by (auto simp: js_match_def split: option.splits prod.splits)
  from s obtain j where j: "j \<le> length t" "k = j" "rx i R j (drop j t) = Some (ms, e)"
      "\<forall>j' < j. rx i R j' (drop j' t) = None"
    using search_Some_iff [of i R 0 t k ms e] by auto
  from assms j(1,3) obtain w post where w: "drop j t = w @ post" "tok w (groups t ms)"
    unfolding implements_def by blast
  have at: "token_at tok t j gs" using w j(1) g unfolding token_at_def by blast
  have "\<forall>j' < j. \<forall>v'. \<not> token_at tok t j' v'"
  proof (intro allI impI notI)
    fix j' v' assume lt: "j' < j" and "token_at tok t j' v'"
    then obtain w' post' where a: "drop j' t = w' @ post'" "j' \<le> length t" "tok w' v'"
      unfolding token_at_def by blast
    with assms obtain ms' where "rx i R j' (drop j' t) = Some (ms', j' + length w')"
      unfolding implements_def by blast
    with j(4) lt show False by simp
  qed
  with at show "first_token tok t gs" unfolding first_token_def by blast
next
  assume "first_token tok t gs"
  then obtain k where at: "token_at tok t k gs" and first: "\<forall>j<k. \<forall>v'. \<not> token_at tok t j v'"
    unfolding first_token_def by blast
  from at obtain w post where a: "drop k t = w @ post" "k \<le> length t" "tok w gs"
    unfolding token_at_def by blast
  with assms obtain ms where ms: "rx i R k (drop k t) = Some (ms, k + length w)" "groups t ms = gs"
    unfolding implements_def by blast
  have "\<forall>j' < k. rx i R (0 + j') (drop j' t) = None"
  proof (intro allI impI)
    fix j' assume lt: "j' < k"
    show "rx i R (0 + j') (drop j' t) = None"
    proof (cases "rx i R j' (drop j' t)")
      case None
      then show ?thesis by simp
    next
      case (Some m)
      obtain ms' e' where "m = (ms', e')" by (cases m)
      moreover from lt a(2) have "j' \<le> length t" by simp
      ultimately obtain w' post' where "drop j' t = w' @ post'" "tok w' (groups t ms')"
        using Some assms unfolding implements_def by blast
      with \<open>j' \<le> length t\<close> have "token_at tok t j' (groups t ms')"
        unfolding token_at_def by blast
      with first lt show ?thesis by blast
    qed
  qed
  with ms(1) a(2) have "search i R 0 t = Some (k, ms, k + length w)"
    using search_Some_iff [of i R 0 t k ms "k + length w"] by auto
  with ms(2) show "\<exists>m0. js_match i R t = Some (m0 # gs)" by (simp add: js_match_def)
qed

lemma takeWhile_dropWhile_append:
  assumes "list_all P a" and "s' = [] \<or> \<not> P (hd s')"
  shows "takeWhile P (a @ s') = a \<and> dropWhile P (a @ s') = s'"
proof -
  from assms(2) have "takeWhile P s' = []" and "dropWhile P s' = s'"
    by (cases s'; auto)+
  with assms(1) show ?thesis
    by (simp add: takeWhile_append2 dropWhile_append2 list_all_iff)
qed

lemma slice_drop:
  assumes "drop n t = a @ g @ post"
  shows "slice t (n + length a) (n + length a + length g) = g"
proof -
  have "drop (n + length a) t = drop (length a) (drop n t)" by (simp add: add.commute)
  also have "\<dots> = g @ post" using assms by simp
  finally show ?thesis by (simp add: slice_def)
qed

section \<open>The patterns implement the token grammars\<close>

lemma space_not_other:
  "is_space x \<Longrightarrow> \<not> is_digit x \<and> \<not> is_lower x \<and> \<not> is_upper x \<and> x \<noteq> 95 \<and> x \<noteq> 34
     \<and> x \<noteq> 123 \<and> x \<noteq> 91 \<and> x \<noteq> 116"
  by (auto simp: is_space_def is_digit_def is_lower_def is_upper_def)

lemma canon_93_eq: "canon 93 = canon x \<longleftrightarrow> x = 93"
  by (auto simp: canon_def is_lower_def)

lemma name_char_canon: "badge_name_char x \<Longrightarrow> canon 93 \<noteq> canon x"
  by (auto simp: badge_name_char_def canon_def is_lower_def is_upper_def)

lemma in_class_LU: "in_class True LowerUnderscore = badge_name_char"
  by (auto simp: badge_name_char_def fun_eq_iff)

lemma in_class_Space: "in_class i Space = is_space"
  by (auto simp: fun_eq_iff)

lemma js_badge_open: "js ''[badge:'' = [91, 98, 97, 100, 103, 101, 58]"
  by (simp add: js_def)

lemma js_close_bracket: "js '']'' = [93]"
  by (simp add: js_def)

lemma lit_match_single: "lit_match i [c] s \<longleftrightarrow> s \<noteq> [] \<and> (if i then canon c = canon (hd s) else c = hd s)"
  by (cases s) auto

lemma badge_sc1: "\<forall>x xs m. in_class True Space x \<longrightarrow>
      rx True [Open, Plus LowerUnderscore, Close, Lit [93]] m (x # xs) = None"
  using space_not_other by simp

lemma badge_sc2: "\<forall>x xs m. in_class True LowerUnderscore x \<longrightarrow>
      rx True [Close, Lit [93]] m (x # xs) = None"
  using name_char_canon by (simp add: in_class_LU del: in_class.simps)

lemma rx_badge_closed:
  "rx True badge_rx n s =
     (if lit_match True (js ''[badge:'') s
      then (let ws = takeWhile is_space (drop (length (js ''[badge:'')) s);
                s2 = dropWhile is_space (drop (length (js ''[badge:'')) s);
                nm = takeWhile badge_name_char s2;
                s3 = dropWhile badge_name_char s2
            in if nm \<noteq> [] \<and> s3 \<noteq> [] \<and> hd s3 = 93
               then Some ([n + length (js ''[badge:'') + length ws,
                           n + length (js ''[badge:'') + length ws + length nm],
                          n + length (js ''[badge:'') + length ws + length nm + 1)
               else None)
      else None)"
  unfolding badge_rx_def js_close_bracket
  by (simp add: rx_Star_greedy [OF badge_sc1] rx_Plus_greedy [OF badge_sc2]
        in_class_LU in_class_Space lit_match_single canon_93_eq Let_def add.assoc
        del: in_class.simps)

lemma tw_split:
  "list_all P a \<Longrightarrow> \<not> P x \<Longrightarrow>
   takeWhile P (a @ x # r) = a \<and> dropWhile P (a @ x # r) = x # r"
  using takeWhile_dropWhile_append [of P a "x # r"] by simp

lemma list_all_takeWhile: "list_all P (takeWhile P s)"
  by (induction s) simp_all

lemma name_char_not_space: "badge_name_char x \<Longrightarrow> \<not> is_space x"
  using space_not_other [of x] by (auto simp: badge_name_char_def)

lemma not_name_char_93: "\<not> badge_name_char 93"
  by (simp add: badge_name_char_def is_lower_def is_upper_def)

lemma ci_equal_length: "ci_equal a b \<Longrightarrow> length a = length b"
  unfolding ci_equal_def by (metis length_map)

lemma lit_match_ci_append:
  assumes "ci_equal lit l"
  shows "lit_match True l (lit @ r)"
proof -
  have "length lit = length l" using assms by (rule ci_equal_length)
  then show ?thesis using assms by (simp add: lit_match_iff ci_equal_def)
qed

lemma badge_rx_complete:
  assumes "ci_equal lit (js ''[badge:'')" "list_all is_space ws" "nm \<noteq> []"
    "list_all badge_name_char nm"
  shows "rx True badge_rx n (lit @ ws @ nm @ 93 # post)
         = Some ([n + length lit + length ws, n + length lit + length ws + length nm],
                 n + length lit + length ws + length nm + 1)"
proof -
  have len: "length (js ''[badge:'') = length lit" using assms(1) by (simp add: ci_equal_length)
  have lm: "lit_match True (js ''[badge:'') (lit @ ws @ nm @ 93 # post)"
    using assms(1) by (rule lit_match_ci_append)
  obtain c cs where nm: "nm = c # cs" using assms(3) by (cases nm) auto
  with assms(4) have "\<not> is_space c" by (simp add: name_char_not_space)
  with assms(2) have ws: "takeWhile is_space (ws @ nm @ 93 # post) = ws"
      "dropWhile is_space (ws @ nm @ 93 # post) = nm @ 93 # post"
    using tw_split [of is_space ws c "cs @ 93 # post"] nm by simp_all
  have n2: "takeWhile badge_name_char (nm @ 93 # post) = nm"
      "dropWhile badge_name_char (nm @ 93 # post) = 93 # post"
    using tw_split [OF assms(4) not_name_char_93, of post] by simp_all
  have d1: "drop (length (js ''[badge:'')) (lit @ ws @ nm @ 93 # post) = ws @ nm @ 93 # post"
    using len by simp
  show ?thesis
    unfolding rx_badge_closed d1 ws n2 Let_def using lm assms(3) by (simp add: len)
qed

lemma badge_rx_sound:
  assumes "rx True badge_rx n s = Some (ms, e)"
  shows "\<exists>lit ws nm post. s = lit @ ws @ nm @ 93 # post \<and> ci_equal lit (js ''[badge:'')
           \<and> list_all is_space ws \<and> nm \<noteq> [] \<and> list_all badge_name_char nm
           \<and> ms = [n + length lit + length ws, n + length lit + length ws + length nm]
           \<and> e = n + length lit + length ws + length nm + 1"
proof -
  let ?L = "js ''[badge:''"
  let ?s1 = "drop (length ?L) s"
  let ?ws = "takeWhile is_space ?s1"
  let ?s2 = "dropWhile is_space ?s1"
  let ?nm = "takeWhile badge_name_char ?s2"
  let ?s3 = "dropWhile badge_name_char ?s2"
  from assms have lm: "lit_match True ?L s"
    unfolding rx_badge_closed by (simp split: if_splits)
  with assms have c: "?nm \<noteq> []" "?s3 \<noteq> []" "hd ?s3 = 93"
    and ms: "ms = [n + length ?L + length ?ws, n + length ?L + length ?ws + length ?nm]"
    and e: "e = n + length ?L + length ?ws + length ?nm + 1"
    unfolding rx_badge_closed by (simp_all add: Let_def split: if_splits)
  from lm have len: "length ?L \<le> length s" and ci: "ci_equal (take (length ?L) s) ?L"
    by (simp_all add: lit_match_iff ci_equal_def)
  from c(2,3) have s3: "?s3 = 93 # tl ?s3" by (cases ?s3) auto
  have "s = take (length ?L) s @ ?s1" by simp
  also have "?s1 = ?ws @ ?s2" by simp
  also have "?s2 = ?nm @ ?s3" by simp
  finally have "s = take (length ?L) s @ ?ws @ ?nm @ 93 # tl ?s3" using s3 by simp
  moreover have "length (take (length ?L) s) = length ?L" using len by simp
  ultimately show ?thesis
    using ci c(1) ms e list_all_takeWhile [of is_space ?s1]
      list_all_takeWhile [of badge_name_char ?s2]
    by (intro exI [of _ "take (length ?L) s"] exI [of _ ?ws] exI [of _ ?nm] exI [of _ "tl ?s3"])
       simp
qed

lemma badge_rx_implements: "implements True badge_rx badge_token"
  unfolding implements_def
proof (intro conjI allI impI)
  fix t n ms e
  assume n: "n \<le> length t" and r: "rx True badge_rx n (drop n t) = Some (ms, e)"
  from badge_rx_sound [OF r] obtain lit ws nm post where
    d: "drop n t = lit @ ws @ nm @ 93 # post" "ci_equal lit (js ''[badge:'')"
       "list_all is_space ws" "nm \<noteq> []" "list_all badge_name_char nm"
       "ms = [n + length lit + length ws, n + length lit + length ws + length nm]"
       "e = n + length lit + length ws + length nm + 1" by blast
  from d(1) have "drop n t = (lit @ ws) @ nm @ (93 # post)" by simp
  from slice_drop [OF this] have "slice t (n + length lit + length ws)
       (n + length lit + length ws + length nm) = nm" by (simp add: add.assoc)
  with d(6) have g: "groups t ms = [nm]" by simp
  have "badge_token (lit @ ws @ nm @ [93]) [nm]"
    unfolding badge_token_def js_close_bracket using d(2,3,4,5) by blast
  with d(1,7) g
  show "\<exists>w post. drop n t = w @ post \<and> badge_token w (groups t ms) \<and> e = n + length w"
    by (intro exI [of _ "lit @ ws @ nm @ [93]"] exI [of _ post]) simp
next
  fix t n w post gs
  assume n: "n \<le> length t" and dr: "drop n t = w @ post" and tok: "badge_token w gs"
  from tok obtain lit ws nm where
    w: "w = lit @ ws @ nm @ [93]" "gs = [nm]" "ci_equal lit (js ''[badge:'')"
       "list_all is_space ws" "nm \<noteq> []" "list_all badge_name_char nm"
    unfolding badge_token_def js_close_bracket by blast
  let ?ms = "[n + length lit + length ws, n + length lit + length ws + length nm]"
  from dr w(1) have d: "drop n t = lit @ ws @ nm @ 93 # post" by simp
  have r: "rx True badge_rx n (drop n t) = Some (?ms, n + length w)"
    unfolding d using badge_rx_complete [OF w(3,4,5,6), of n post] w(1) by simp
  from d have "drop n t = (lit @ ws) @ nm @ (93 # post)" by simp
  from slice_drop [OF this] have "groups t ?ms = gs" using w(2) by (simp add: add.assoc)
  with r show "\<exists>ms. rx True badge_rx n (drop n t) = Some (ms, n + length w) \<and> groups t ms = gs"
    by blast
qed

lemma rx_Lit_E:
  assumes "rx i (Lit l # r) n s = Some m"
  shows "\<exists>a s'. s = a @ s' \<and> length a = length l
        \<and> (if i then ci_equal a l else a = l)
        \<and> rx i r (n + length l) s' = Some m"
proof -
  from assms have lm: "lit_match i l s" by (simp split: if_splits)
  with assms have r: "rx i r (n + length l) (drop (length l) s) = Some m" by simp
  from lm have len: "length l \<le> length s"
    and eq: "if i then ci_equal (take (length l) s) l else take (length l) s = l"
    by (simp_all add: lit_match_iff ci_equal_def)
  have "s = take (length l) s @ drop (length l) s" by simp
  moreover have "length (take (length l) s) = length l" using len by simp
  ultimately show ?thesis using eq r by blast
qed

lemma rx_Star_E:
  assumes "\<forall>x xs m. in_class i c x \<longrightarrow> rx i r m (x # xs) = None"
    and "rx i (Star c # r) n s = Some m"
  shows "\<exists>a s'. s = a @ s' \<and> list_all (in_class i c) a \<and> rx i r (n + length a) s' = Some m"
proof -
  from assms(2) have "rx i r (n + length (takeWhile (in_class i c) s))
      (dropWhile (in_class i c) s) = Some m"
    by (simp add: rx_Star_greedy [OF assms(1)])
  moreover have "s = takeWhile (in_class i c) s @ dropWhile (in_class i c) s" by simp
  ultimately show ?thesis using list_all_takeWhile [of "in_class i c" s] by blast
qed

lemma rx_Plus_E:
  assumes "\<forall>x xs m. in_class i c x \<longrightarrow> rx i r m (x # xs) = None"
    and "rx i (Plus c # r) n s = Some m"
  shows "\<exists>a s'. s = a @ s' \<and> a \<noteq> [] \<and> list_all (in_class i c) a
      \<and> rx i r (n + length a) s' = Some m"
proof -
  from assms(2) have "takeWhile (in_class i c) s \<noteq> []"
    and "rx i r (n + length (takeWhile (in_class i c) s)) (dropWhile (in_class i c) s) = Some m"
    by (simp_all add: rx_Plus_greedy [OF assms(1)] split: if_splits)
  moreover have "s = takeWhile (in_class i c) s @ dropWhile (in_class i c) s" by simp
  ultimately show ?thesis using list_all_takeWhile [of "in_class i c" s] by blast
qed

lemma rx_Open_E:
  assumes "rx i (Open # r) n s = Some (ms, e)"
  shows "\<exists>ms'. ms = n # ms' \<and> rx i r n s = Some (ms', e)"
  using assms by (auto split: option.splits)

lemma rx_Close_E:
  assumes "rx i (Close # r) n s = Some (ms, e)"
  shows "\<exists>ms'. ms = n # ms' \<and> rx i r n s = Some (ms', e)"
  using assms by (auto split: option.splits)

lemma rx_Lit_I:
  assumes "if i then ci_equal a l else a = l"
  shows "rx i (Lit l # r) n (a @ s') = rx i r (n + length a) s'"
proof -
  have len: "length a = length l" using assms ci_equal_length by (auto split: if_splits)
  then have "lit_match i l (a @ s')" using assms
    by (auto simp: lit_match_iff ci_equal_def split: if_splits)
  then show ?thesis using len by simp
qed

lemma rx_Star_I:
  assumes "\<forall>x xs m. in_class i c x \<longrightarrow> rx i r m (x # xs) = None"
    and "list_all (in_class i c) a" and "s' = [] \<or> \<not> in_class i c (hd s')"
  shows "rx i (Star c # r) n (a @ s') = rx i r (n + length a) s'"
  using takeWhile_dropWhile_append [OF assms(2,3)] by (simp add: rx_Star_greedy [OF assms(1)])

lemma rx_Plus_I:
  assumes "\<forall>x xs m. in_class i c x \<longrightarrow> rx i r m (x # xs) = None"
    and "list_all (in_class i c) a" and "a \<noteq> []" and "s' = [] \<or> \<not> in_class i c (hd s')"
  shows "rx i (Plus c # r) n (a @ s') = rx i r (n + length a) s'"
  using takeWhile_dropWhile_append [OF assms(2,4)] assms(3)
  by (simp add: rx_Plus_greedy [OF assms(1)])

lemma sc_Lit:
  assumes "\<forall>x. in_class i c x \<longrightarrow> (if i then canon l0 \<noteq> canon x else l0 \<noteq> x)"
  shows "\<forall>x xs m. in_class i c x \<longrightarrow> rx i (Lit (l0 # l) # r) m (x # xs) = None"
  using assms by (auto split: if_splits)

lemma sc_Close_Lit:
  assumes "\<forall>x. in_class i c x \<longrightarrow> (if i then canon l0 \<noteq> canon x else l0 \<noteq> x)"
  shows "\<forall>x xs m. in_class i c x \<longrightarrow> rx i (Close # Lit (l0 # l) # r) m (x # xs) = None"
  using assms by (auto split: if_splits)

lemma sc_Open_Plus:
  assumes "\<forall>x. in_class i c x \<longrightarrow> \<not> in_class i c' x"
  shows "\<forall>x xs m. in_class i c x \<longrightarrow> rx i (Open # Plus c' # r) m (x # xs) = None"
  using assms by auto

lemma js_comma: "js '','' = [44]" by (simp add: js_def)
lemma js_type: "js ''type:'' = [116, 121, 112, 101, 58]" by (simp add: js_def)

lemma in_class_Digit: "in_class i Digit = is_digit" by (auto simp: fun_eq_iff)
lemma in_class_Not34: "in_class False (NotChar 34) = (\<lambda>c. c \<noteq> 34)" by (auto simp: fun_eq_iff)

lemma digit_not_other: "is_digit x \<Longrightarrow> x \<noteq> 44 \<and> x \<noteq> 93 \<and> x \<noteq> 58 \<and> \<not> is_space x \<and> canon x = x"
  by (auto simp: is_digit_def is_space_def canon_def is_lower_def)

lemma pts_sc1: "\<forall>x xs m. in_class False Space x \<longrightarrow> rx False (Open # Plus Digit # r) m (x # xs) = None"
  by (rule sc_Open_Plus) (use space_not_other in simp)

lemma pts_sc2: "\<forall>x xs m. in_class False Digit x \<longrightarrow> rx False (Close # Lit (44 # l) # r) m (x # xs) = None"
  by (rule sc_Close_Lit) (use digit_not_other in auto)

lemma pts_sc3: "\<forall>x xs m. in_class False Space x \<longrightarrow> rx False (Lit (116 # l) # r) m (x # xs) = None"
  by (rule sc_Lit) (use space_not_other in auto)

lemma pts_sc4: "\<forall>x xs m. in_class False Space x \<longrightarrow> rx False (Lit (34 # l) # r) m (x # xs) = None"
  by (rule sc_Lit) (use space_not_other in auto)

lemma pts_sc5: "\<forall>x xs m. in_class False (NotChar 34) x \<longrightarrow> rx False (Close # Lit (34 # l) # r) m (x # xs) = None"
  by (rule sc_Close_Lit) auto

lemma rx_Lit_E_cs:
  assumes "rx False (Lit l # r) n s = Some m"
  shows "\<exists>s'. s = l @ s' \<and> rx False r (n + length l) s' = Some m"
  using rx_Lit_E [OF assms] by auto

lemma points_rx_sound:
  assumes "rx False award_points_rx n s = Some (ms, e)"
  shows "\<exists>ws1 ds ws2 ws3 lab post.
      s = js ''{award_points:'' @ ws1 @ ds @ js '','' @ ws2 @ js ''type:'' @ ws3 @ [34] @ lab
            @ [34, 125] @ post
    \<and> list_all is_space ws1 \<and> ds \<noteq> [] \<and> list_all is_digit ds
    \<and> list_all is_space ws2 \<and> list_all is_space ws3
    \<and> lab \<noteq> [] \<and> list_all (\<lambda>c. c \<noteq> 34) lab
    \<and> ms = [n + length (js ''{award_points:'' @ ws1),
             n + length (js ''{award_points:'' @ ws1 @ ds),
             n + length (js ''{award_points:'' @ ws1 @ ds @ js '','' @ ws2 @ js ''type:'' @ ws3 @ [34]),
             n + length (js ''{award_points:'' @ ws1 @ ds @ js '','' @ ws2 @ js ''type:'' @ ws3 @ [34] @ lab)]
    \<and> e = n + length (js ''{award_points:'' @ ws1 @ ds @ js '','' @ ws2 @ js ''type:'' @ ws3 @ [34] @ lab @ [34, 125])"
proof -
  let ?A = "js ''{award_points:''"
  let ?T = "[116, 121, 112, 101, 58] :: nat list"
  from rx_Lit_E_cs [OF assms [unfolded award_points_rx_def js_comma js_type]]
  obtain s0 where s0: "s = ?A @ s0"
    and r0: "rx False [Star Space, Open, Plus Digit, Close, Lit [44], Star Space,
                Lit ?T, Star Space, Lit [34], Open, Plus (NotChar 34), Close,
                Lit [34, 125]] (n + length ?A) s0 = Some (ms, e)"
    by (elim exE conjE) (rule that, assumption+)
  from rx_Star_E [OF pts_sc1 r0]
  obtain ws1 s1 where s1: "s0 = ws1 @ s1" "list_all (in_class False Space) ws1"
    and r1: "rx False [Open, Plus Digit, Close, Lit [44], Star Space,
                Lit ?T, Star Space, Lit [34], Open, Plus (NotChar 34), Close,
                Lit [34, 125]] (n + length ?A + length ws1) s1 = Some (ms, e)"
    by (elim exE conjE) (rule that, assumption+)
  from rx_Open_E [OF r1]
  obtain ms1 where m1: "ms = (n + length ?A + length ws1) # ms1"
    and r2: "rx False [Plus Digit, Close, Lit [44], Star Space,
                Lit ?T, Star Space, Lit [34], Open, Plus (NotChar 34), Close,
                Lit [34, 125]] (n + length ?A + length ws1) s1 = Some (ms1, e)"
    by (elim exE conjE) (rule that, assumption+)
  from rx_Plus_E [OF pts_sc2 r2]
  obtain ds s2 where s2: "s1 = ds @ s2" "ds \<noteq> []" "list_all (in_class False Digit) ds"
    and r3: "rx False [Close, Lit [44], Star Space,
                Lit ?T, Star Space, Lit [34], Open, Plus (NotChar 34), Close,
                Lit [34, 125]] (n + length ?A + length ws1 + length ds) s2 = Some (ms1, e)"
    by (elim exE conjE) (rule that, assumption+)
  from rx_Close_E [OF r3]
  obtain ms2 where m2: "ms1 = (n + length ?A + length ws1 + length ds) # ms2"
    and r4: "rx False [Lit [44], Star Space,
                Lit ?T, Star Space, Lit [34], Open, Plus (NotChar 34), Close,
                Lit [34, 125]] (n + length ?A + length ws1 + length ds) s2 = Some (ms2, e)"
    by (elim exE conjE) (rule that, assumption+)
  from rx_Lit_E_cs [OF r4]
  obtain s3 where s3: "s2 = [44] @ s3"
    and r5: "rx False [Star Space,
                Lit ?T, Star Space, Lit [34], Open, Plus (NotChar 34), Close,
                Lit [34, 125]] (n + length ?A + length ws1 + length ds + length [44::nat]) s3
             = Some (ms2, e)"
    by (elim exE conjE) (rule that, assumption+)
  from rx_Star_E [OF pts_sc3 r5]
  obtain ws2 s4 where s4: "s3 = ws2 @ s4" "list_all (in_class False Space) ws2"
    and r6: "rx False [Lit ?T, Star Space, Lit [34], Open,
                Plus (NotChar 34), Close, Lit [34, 125]]
              (n + length ?A + length ws1 + length ds + length [44::nat] + length ws2) s4
             = Some (ms2, e)"
    by (elim exE conjE) (rule that, assumption+)
  from rx_Lit_E_cs [OF r6]
  obtain s5 where s5: "s4 = ?T @ s5"
    and r7: "rx False [Star Space, Lit [34], Open, Plus (NotChar 34), Close, Lit [34, 125]]
              (n + length ?A + length ws1 + length ds + length [44::nat] + length ws2
                 + length ?T) s5 = Some (ms2, e)"
    by (elim exE conjE) (rule that, assumption+)
  from rx_Star_E [OF pts_sc4 r7]
  obtain ws3 s6 where s6: "s5 = ws3 @ s6" "list_all (in_class False Space) ws3"
    and r8: "rx False [Lit [34], Open, Plus (NotChar 34), Close, Lit [34, 125]]
              (n + length ?A + length ws1 + length ds + length [44::nat] + length ws2
                 + length ?T + length ws3) s6
             = Some (ms2, e)"
    by (elim exE conjE) (rule that, assumption+)
  from rx_Lit_E_cs [OF r8]
  obtain s7 where s7: "s6 = [34] @ s7"
    and r9: "rx False [Open, Plus (NotChar 34), Close, Lit [34, 125]]
              (n + length ?A + length ws1 + length ds + length [44::nat] + length ws2
                 + length ?T + length ws3 + length [34::nat]) s7
             = Some (ms2, e)"
    by (elim exE conjE) (rule that, assumption+)
  from rx_Open_E [OF r9]
  obtain ms3 where m3: "ms2 = (n + length ?A + length ws1 + length ds + length [44::nat]
                 + length ws2 + length ?T + length ws3 + length [34::nat]) # ms3"
    and r10: "rx False [Plus (NotChar 34), Close, Lit [34, 125]]
              (n + length ?A + length ws1 + length ds + length [44::nat] + length ws2
                 + length ?T + length ws3 + length [34::nat]) s7
             = Some (ms3, e)"
    by (elim exE conjE) (rule that, assumption+)
  from rx_Plus_E [OF pts_sc5 r10]
  obtain lab s8 where s8: "s7 = lab @ s8" "lab \<noteq> []" "list_all (in_class False (NotChar 34)) lab"
    and r11: "rx False [Close, Lit [34, 125]]
              (n + length ?A + length ws1 + length ds + length [44::nat] + length ws2
                 + length ?T + length ws3 + length [34::nat] + length lab) s8 = Some (ms3, e)"
    by (elim exE conjE) (rule that, assumption+)
  from rx_Close_E [OF r11]
  obtain ms4 where m4: "ms3 = (n + length ?A + length ws1 + length ds + length [44::nat]
                 + length ws2 + length ?T + length ws3 + length [34::nat] + length lab) # ms4"
    and r12: "rx False [Lit [34, 125]]
              (n + length ?A + length ws1 + length ds + length [44::nat] + length ws2
                 + length ?T + length ws3 + length [34::nat] + length lab) s8 = Some (ms4, e)"
    by (elim exE conjE) (rule that, assumption+)
  from rx_Lit_E_cs [OF r12]
  obtain post where s9: "s8 = [34, 125] @ post"
    and r13: "rx False [] (n + length ?A + length ws1 + length ds + length [44::nat]
                 + length ws2 + length ?T + length ws3 + length [34::nat] + length lab
                 + length [34, 125::nat]) post = Some (ms4, e)"
    by (elim exE conjE) (rule that, assumption+)
  from r13 have m5: "ms4 = []"
    and e: "e = n + length ?A + length ws1 + length ds + length [44::nat]
                 + length ws2 + length ?T + length ws3 + length [34::nat] + length lab
                 + length [34, 125::nat]"
    by simp_all
  have "s = ?A @ ws1 @ ds @ js '','' @ ws2 @ js ''type:'' @ ws3 @ [34] @ lab @ [34, 125] @ post"
    using s0 s1 s2 s3 s4 s5 s6 s7 s8 s9 by (simp add: js_comma js_type)
  moreover have "ms = [n + length (?A @ ws1), n + length (?A @ ws1 @ ds),
             n + length (?A @ ws1 @ ds @ js '','' @ ws2 @ js ''type:'' @ ws3 @ [34]),
             n + length (?A @ ws1 @ ds @ js '','' @ ws2 @ js ''type:'' @ ws3 @ [34] @ lab)]"
    using m1 m2 m3 m4 m5 by (simp add: js_comma js_type)
  moreover have "e = n + length (?A @ ws1 @ ds @ js '','' @ ws2 @ js ''type:'' @ ws3 @ [34] @ lab
       @ [34, 125])"
    using e by (simp add: js_comma js_type)
  moreover have "list_all is_space ws1" "list_all is_space ws2" "list_all is_space ws3"
    "list_all is_digit ds" "list_all (\<lambda>c. c \<noteq> 34) lab"
    using s1(2) s4(2) s6(2) s2(3) s8(3)
    by (simp_all only: in_class_Space in_class_Digit in_class_Not34)
  ultimately show ?thesis using s2(2) s8(2) by blast
qed

lemma hd_append_ne: "a \<noteq> [] \<Longrightarrow> hd (a @ b) = hd a"
  by simp

lemma list_all_hd: "list_all P a \<Longrightarrow> a \<noteq> [] \<Longrightarrow> P (hd a)"
  by (cases a) auto

lemma points_rx_complete:
  assumes ws1: "list_all is_space ws1" and ds: "ds \<noteq> []" "list_all is_digit ds"
    and ws2: "list_all is_space ws2" and ws3: "list_all is_space ws3"
    and lab: "lab \<noteq> []" "list_all (\<lambda>c. c \<noteq> 34) lab"
  shows "rx False award_points_rx n
           (js ''{award_points:'' @ ws1 @ ds @ js '','' @ ws2 @ js ''type:'' @ ws3 @ [34] @ lab
              @ [34, 125] @ post)
         = Some ([n + length (js ''{award_points:'' @ ws1),
                  n + length (js ''{award_points:'' @ ws1 @ ds),
                  n + length (js ''{award_points:'' @ ws1 @ ds @ js '','' @ ws2 @ js ''type:''
                                @ ws3 @ [34]),
                  n + length (js ''{award_points:'' @ ws1 @ ds @ js '','' @ ws2 @ js ''type:''
                                @ ws3 @ [34] @ lab)],
                 n + length (js ''{award_points:'' @ ws1 @ ds @ js '','' @ ws2 @ js ''type:''
                               @ ws3 @ [34] @ lab @ [34, 125]))"
proof -
  let ?A = "js ''{award_points:''"
  let ?T = "[116, 121, 112, 101, 58] :: nat list"
  have c1: "in_class False Space = is_space" "in_class False Digit = is_digit"
    "in_class False (NotChar 34) = (\<lambda>c. c \<noteq> 34)"
    by (simp_all add: fun_eq_iff)
  have ns: "\<not> is_space 34" "\<not> is_space 116" "\<not> is_digit 44"
    by (simp_all add: is_space_def is_digit_def)
  have digit_hd: "\<not> is_space (hd ds)"
    using list_all_hd [OF ds(2,1)] digit_not_other by blast
  have g13: "rx False [Lit [34, 125]] p (34 # 125 # post) = Some ([], p + 2)" for p
    by simp
  have g12: "rx False [Close, Lit [34, 125]] p (34 # 125 # post) = Some ([p], p + 2)" for p
    by simp
  have g11: "rx False [Plus (NotChar 34), Close, Lit [34, 125]] p (lab @ 34 # 125 # post)
             = Some ([p + length lab], p + length lab + 2)" for p
    using rx_Plus_I [OF pts_sc5, of lab "[34, 125] @ post" "[125]" "[]" p] lab
    by (simp add: c1 g12)
  have g10: "rx False [Open, Plus (NotChar 34), Close, Lit [34, 125]] p (lab @ 34 # 125 # post)
             = Some ([p, p + length lab], p + length lab + 2)" for p
    by (simp add: g11 del: rx.simps(8))
  have g9: "rx False [Lit [34], Open, Plus (NotChar 34), Close, Lit [34, 125]] p
              (34 # lab @ 34 # 125 # post)
             = Some ([p + 1, p + 1 + length lab], p + 1 + length lab + 2)" for p
    using rx_Lit_I [of False "[34]" "[34]" _ p "lab @ [34, 125] @ post"]
    by (simp add: g10 del: rx.simps)
  have g8: "rx False [Star Space, Lit [34], Open, Plus (NotChar 34), Close, Lit [34, 125]] p
              (ws3 @ 34 # lab @ 34 # 125 # post)
             = Some ([p + length ws3 + 1, p + length ws3 + 1 + length lab],
                     p + length ws3 + 1 + length lab + 2)" for p
    using rx_Star_I [OF pts_sc4, of ws3 "[34] @ lab @ [34, 125] @ post" "[]" _ p] ws3
      ns
    by (simp add: c1 g9 del: rx.simps)
  have g7: "rx False [Lit ?T, Star Space, Lit [34], Open, Plus (NotChar 34), Close,
                      Lit [34, 125]] p
              (116 # 121 # 112 # 101 # 58 # ws3 @ 34 # lab @ 34 # 125 # post)
             = Some ([p + 5 + length ws3 + 1, p + 5 + length ws3 + 1 + length lab],
                     p + 5 + length ws3 + 1 + length lab + 2)" for p
    using rx_Lit_I [of False ?T ?T _ p "ws3 @ [34] @ lab @ [34, 125] @ post"]
    by (simp add: g8 del: rx.simps)
  have g6: "rx False [Star Space, Lit ?T, Star Space, Lit [34], Open, Plus (NotChar 34), Close,
                      Lit [34, 125]] p
              (ws2 @ 116 # 121 # 112 # 101 # 58 # ws3 @ 34 # lab @ 34 # 125 # post)
             = Some ([p + length ws2 + 5 + length ws3 + 1,
                      p + length ws2 + 5 + length ws3 + 1 + length lab],
                     p + length ws2 + 5 + length ws3 + 1 + length lab + 2)" for p
    using rx_Star_I [OF pts_sc3, of ws2 "?T @ ws3 @ [34] @ lab @ [34, 125] @ post" _ _ p] ws2
      ns
    by (simp add: c1 g7 del: rx.simps)
  have g5: "rx False [Lit [44], Star Space, Lit ?T, Star Space, Lit [34], Open,
                      Plus (NotChar 34), Close, Lit [34, 125]] p
              (44 # ws2 @ 116 # 121 # 112 # 101 # 58 # ws3 @ 34 # lab @ 34 # 125 # post)
             = Some ([p + 1 + length ws2 + 5 + length ws3 + 1,
                      p + 1 + length ws2 + 5 + length ws3 + 1 + length lab],
                     p + 1 + length ws2 + 5 + length ws3 + 1 + length lab + 2)" for p
    using rx_Lit_I [of False "[44]" "[44]" _ p "ws2 @ ?T @ ws3 @ [34] @ lab @ [34, 125] @ post"]
    by (simp add: g6 del: rx.simps)
  have g4: "rx False [Close, Lit [44], Star Space, Lit ?T, Star Space, Lit [34], Open,
                      Plus (NotChar 34), Close, Lit [34, 125]] p
              (44 # ws2 @ 116 # 121 # 112 # 101 # 58 # ws3 @ 34 # lab @ 34 # 125 # post)
             = Some ([p, p + 1 + length ws2 + 5 + length ws3 + 1,
                      p + 1 + length ws2 + 5 + length ws3 + 1 + length lab],
                     p + 1 + length ws2 + 5 + length ws3 + 1 + length lab + 2)" for p
    by (simp add: g5 del: rx.simps(2))
  have g3: "rx False [Plus Digit, Close, Lit [44], Star Space, Lit ?T, Star Space, Lit [34],
                      Open, Plus (NotChar 34), Close, Lit [34, 125]] p
              (ds @ 44 # ws2 @ 116 # 121 # 112 # 101 # 58 # ws3 @ 34 # lab @ 34 # 125 # post)
             = Some ([p + length ds, p + length ds + 1 + length ws2 + 5 + length ws3 + 1,
                      p + length ds + 1 + length ws2 + 5 + length ws3 + 1 + length lab],
                     p + length ds + 1 + length ws2 + 5 + length ws3 + 1 + length lab + 2)" for p
    using rx_Plus_I [OF pts_sc2, of ds "[44] @ ws2 @ ?T @ ws3 @ [34] @ lab @ [34, 125] @ post"
        "[]" _ p] ds ns
    by (simp add: c1 g4 del: rx.simps)
  have g2: "rx False [Open, Plus Digit, Close, Lit [44], Star Space, Lit ?T, Star Space,
                      Lit [34], Open, Plus (NotChar 34), Close, Lit [34, 125]] p
              (ds @ 44 # ws2 @ 116 # 121 # 112 # 101 # 58 # ws3 @ 34 # lab @ 34 # 125 # post)
             = Some ([p, p + length ds, p + length ds + 1 + length ws2 + 5 + length ws3 + 1,
                      p + length ds + 1 + length ws2 + 5 + length ws3 + 1 + length lab],
                     p + length ds + 1 + length ws2 + 5 + length ws3 + 1 + length lab + 2)" for p
    by (simp add: g3 del: rx.simps(8))
  have g1: "rx False [Star Space, Open, Plus Digit, Close, Lit [44], Star Space, Lit ?T,
                      Star Space, Lit [34], Open, Plus (NotChar 34), Close, Lit [34, 125]] p
              (ws1 @ ds @ 44 # ws2 @ 116 # 121 # 112 # 101 # 58 # ws3 @ 34 # lab @ 34 # 125 # post)
             = Some ([p + length ws1, p + length ws1 + length ds,
                      p + length ws1 + length ds + 1 + length ws2 + 5 + length ws3 + 1,
                      p + length ws1 + length ds + 1 + length ws2 + 5 + length ws3 + 1
                        + length lab],
                     p + length ws1 + length ds + 1 + length ws2 + 5 + length ws3 + 1
                        + length lab + 2)" for p
    using rx_Star_I [OF pts_sc1, of ws1 "ds @ [44] @ ws2 @ ?T @ ws3 @ [34] @ lab @ [34, 125] @ post"
        _ p] ws1 digit_hd ds(1)
    by (simp add: c1 g2 del: rx.simps)
  show ?thesis
    unfolding award_points_rx_def js_comma js_type
    using rx_Lit_I [of False ?A ?A _ n
        "ws1 @ ds @ [44] @ ws2 @ ?T @ ws3 @ [34] @ lab @ [34, 125] @ post"]
    by (simp add: g1 del: rx.simps)
qed

lemma points_rx_implements: "implements False award_points_rx points_token"
  unfolding implements_def
proof (intro conjI allI impI)
  fix t n ms e
  assume n: "n \<le> length t" and r: "rx False award_points_rx n (drop n t) = Some (ms, e)"
  let ?A = "js ''{award_points:''"
  from points_rx_sound [OF r] obtain ws1 ds ws2 ws3 lab post where
    d: "drop n t = ?A @ ws1 @ ds @ js '','' @ ws2 @ js ''type:'' @ ws3 @ [34] @ lab
            @ [34, 125] @ post"
    and c: "list_all is_space ws1" "ds \<noteq> []" "list_all is_digit ds"
      "list_all is_space ws2" "list_all is_space ws3" "lab \<noteq> []" "list_all (\<lambda>c. c \<noteq> 34) lab"
    and ms: "ms = [n + length (?A @ ws1), n + length (?A @ ws1 @ ds),
             n + length (?A @ ws1 @ ds @ js '','' @ ws2 @ js ''type:'' @ ws3 @ [34]),
             n + length (?A @ ws1 @ ds @ js '','' @ ws2 @ js ''type:'' @ ws3 @ [34] @ lab)]"
    and e: "e = n + length (?A @ ws1 @ ds @ js '','' @ ws2 @ js ''type:'' @ ws3 @ [34] @ lab
               @ [34, 125])"
    by blast
  from d have "drop n t = (?A @ ws1) @ ds @ (js '','' @ ws2 @ js ''type:'' @ ws3 @ [34] @ lab
            @ [34, 125] @ post)" by simp
  from slice_drop [OF this]
  have g1: "slice t (n + length (?A @ ws1)) (n + length (?A @ ws1 @ ds)) = ds"
    by (simp add: add.assoc)
  from d have "drop n t = (?A @ ws1 @ ds @ js '','' @ ws2 @ js ''type:'' @ ws3 @ [34]) @ lab
            @ ([34, 125] @ post)" by simp
  from slice_drop [OF this]
  have g2: "slice t (n + length (?A @ ws1 @ ds @ js '','' @ ws2 @ js ''type:'' @ ws3 @ [34]))
      (n + length (?A @ ws1 @ ds @ js '','' @ ws2 @ js ''type:'' @ ws3 @ [34] @ lab)) = lab"
    by (simp add: add.assoc)
  from ms g1 g2 have g: "groups t ms = [ds, lab]" by simp
  have "points_token (?A @ ws1 @ ds @ js '','' @ ws2 @ js ''type:'' @ ws3 @ [34] @ lab
            @ [34, 125]) [ds, lab]"
    unfolding points_token_def using c by blast
  with d e g
  show "\<exists>w post. drop n t = w @ post \<and> points_token w (groups t ms) \<and> e = n + length w"
    by (intro exI [of _ "?A @ ws1 @ ds @ js '','' @ ws2 @ js ''type:'' @ ws3 @ [34] @ lab
            @ [34, 125]"] exI [of _ post]) simp
next
  fix t n w post gs
  assume n: "n \<le> length t" and dr: "drop n t = w @ post" and tok: "points_token w gs"
  let ?A = "js ''{award_points:''"
  from tok obtain ws1 ds ws2 ws3 lab where
    w: "w = ?A @ ws1 @ ds @ js '','' @ ws2 @ js ''type:'' @ ws3 @ [34] @ lab @ [34, 125]"
    and gs: "gs = [ds, lab]"
    and c: "list_all is_space ws1" "ds \<noteq> []" "list_all is_digit ds"
      "list_all is_space ws2" "list_all is_space ws3" "lab \<noteq> []" "list_all (\<lambda>c. c \<noteq> 34) lab"
    unfolding points_token_def by blast
  let ?ms = "[n + length (?A @ ws1), n + length (?A @ ws1 @ ds),
             n + length (?A @ ws1 @ ds @ js '','' @ ws2 @ js ''type:'' @ ws3 @ [34]),
             n + length (?A @ ws1 @ ds @ js '','' @ ws2 @ js ''type:'' @ ws3 @ [34] @ lab)]"
  from dr w have d: "drop n t = ?A @ ws1 @ ds @ js '','' @ ws2 @ js ''type:'' @ ws3 @ [34] @ lab
            @ [34, 125] @ post" by simp
  have r: "rx False award_points_rx n (drop n t) = Some (?ms, n + length w)"
    unfolding d w by (rule points_rx_complete [OF c])
  from d have "drop n t = (?A @ ws1) @ ds @ (js '','' @ ws2 @ js ''type:'' @ ws3 @ [34] @ lab
            @ [34, 125] @ post)" by simp
  from slice_drop [OF this]
  have g1: "slice t (n + length (?A @ ws1)) (n + length (?A @ ws1 @ ds)) = ds"
    by (simp add: add.assoc)
  from d have "drop n t = (?A @ ws1 @ ds @ js '','' @ ws2 @ js ''type:'' @ ws3 @ [34]) @ lab
            @ ([34, 125] @ post)" by simp
  from slice_drop [OF this]
  have g2: "slice t (n + length (?A @ ws1 @ ds @ js '','' @ ws2 @ js ''type:'' @ ws3 @ [34]))
      (n + length (?A @ ws1 @ ds @ js '','' @ ws2 @ js ''type:'' @ ws3 @ [34] @ lab)) = lab"
    by (simp add: add.assoc)
  from g1 g2 gs have "groups t ?ms = gs" by simp
  with r show "\<exists>ms. rx False award_points_rx n (drop n t) = Some (ms, n + length w)
      \<and> groups t ms = gs"
    by blast
qed

lemma js_colon: "js '':'' = [58]" by (simp add: js_def)

lemma canon_58_eq: "canon 58 = canon x \<longleftrightarrow> x = 58"
  by (auto simp: canon_def is_lower_def)

lemma in_class_Not93_iff: "in_class True (NotChar 93) c \<longleftrightarrow> c \<noteq> 93"
  by (auto simp: canon_def is_lower_def)

lemma in_class_Not93: "in_class True (NotChar 93) = (\<lambda>c. c \<noteq> 93)"
  by (rule ext) (rule in_class_Not93_iff)

lemma not_digit_93_58: "\<not> is_digit 93" "\<not> is_digit 58"
  by (simp_all add: is_digit_def)

lemma digit_canon_ne: "is_digit x \<Longrightarrow> canon 93 \<noteq> canon x \<and> canon 58 \<noteq> canon x"
  by (auto simp: is_digit_def canon_def is_lower_def)

lemma amt_sc: "\<forall>x xs m. in_class True Digit x \<longrightarrow> rx True (Close # Lit (93 # l) # r) m (x # xs) = None"
  by (rule sc_Close_Lit) (simp add: digit_canon_ne)

lemma cat_sc1: "\<forall>x xs m. in_class True Digit x \<longrightarrow> rx True (Close # Lit (58 # l) # r) m (x # xs) = None"
  by (rule sc_Close_Lit) (simp add: digit_canon_ne)

lemma cat_sc2: "\<forall>x xs m. in_class True (NotChar 93) x \<longrightarrow> rx True (Lit (93 # l) # r) m (x # xs) = None"
  by (rule sc_Lit) (simp add: in_class_Not93 canon_93_eq del: in_class.simps)

lemma rx_amount_closed:
  "rx True [Lit L, Open, Plus Digit, Close, Lit [93]] n s =
     (if lit_match True L s
      then (let ds = takeWhile is_digit (drop (length L) s);
                s2 = dropWhile is_digit (drop (length L) s)
            in if ds \<noteq> [] \<and> s2 \<noteq> [] \<and> hd s2 = 93
               then Some ([n + length L, n + length L + length ds], n + length L + length ds + 1)
               else None)
      else None)"
  by (simp add: rx_Plus_greedy [OF amt_sc] in_class_Digit lit_match_single canon_93_eq Let_def
        add.assoc del: in_class.simps)

lemma rx_category_closed:
  "rx True [Lit L, Open, Plus Digit, Close, Lit [58], Star (NotChar 93), Lit [93]] n s =
     (if lit_match True L s
      then (let ds = takeWhile is_digit (drop (length L) s);
                s2 = dropWhile is_digit (drop (length L) s)
            in if ds \<noteq> [] \<and> s2 \<noteq> [] \<and> hd s2 = 58
               then (let tx = takeWhile (\<lambda>c. c \<noteq> 93) (tl s2);
                         s3 = dropWhile (\<lambda>c. c \<noteq> 93) (tl s2)
                     in if s3 \<noteq> [] \<and> hd s3 = 93
                        then Some ([n + length L, n + length L + length ds],
                                   n + length L + length ds + 1 + length tx + 1)
                        else None)
               else None)
      else None)"
  by (simp add: rx_Plus_greedy [OF cat_sc1] rx_Star_greedy [OF cat_sc2] in_class_Digit
        in_class_Not93 lit_match_single canon_93_eq canon_58_eq Let_def add.assoc drop_Suc
        del: in_class.simps)

lemma amount_rx_complete:
  assumes "ci_equal lit L" "ds \<noteq> []" "list_all is_digit ds"
  shows "rx True [Lit L, Open, Plus Digit, Close, Lit [93]] n (lit @ ds @ 93 # post)
         = Some ([n + length lit, n + length lit + length ds], n + length lit + length ds + 1)"
proof -
  have len: "length L = length lit" using assms(1) by (simp add: ci_equal_length)
  have lm: "lit_match True L (lit @ ds @ 93 # post)" using assms(1) by (rule lit_match_ci_append)
  have d1: "drop (length L) (lit @ ds @ 93 # post) = ds @ 93 # post" using len by simp
  have n2: "takeWhile is_digit (ds @ 93 # post) = ds" "dropWhile is_digit (ds @ 93 # post) = 93 # post"
    using tw_split [OF assms(3) not_digit_93_58(1), of post] by simp_all
  show ?thesis
    unfolding rx_amount_closed d1 n2 Let_def using lm assms(2) by (simp add: len)
qed

lemma amount_rx_sound:
  assumes "rx True [Lit L, Open, Plus Digit, Close, Lit [93]] n s = Some (ms, e)"
  shows "\<exists>lit ds post. s = lit @ ds @ 93 # post \<and> ci_equal lit L
           \<and> ds \<noteq> [] \<and> list_all is_digit ds
           \<and> ms = [n + length lit, n + length lit + length ds]
           \<and> e = n + length lit + length ds + 1"
proof -
  let ?s1 = "drop (length L) s"
  let ?ds = "takeWhile is_digit ?s1"
  let ?s2 = "dropWhile is_digit ?s1"
  from assms have lm: "lit_match True L s"
    unfolding rx_amount_closed by (simp split: if_splits)
  with assms have c: "?ds \<noteq> []" "?s2 \<noteq> []" "hd ?s2 = 93"
    and ms: "ms = [n + length L, n + length L + length ?ds]"
    and e: "e = n + length L + length ?ds + 1"
    unfolding rx_amount_closed by (simp_all add: Let_def split: if_splits)
  from lm have len: "length L \<le> length s" and ci: "ci_equal (take (length L) s) L"
    by (simp_all add: lit_match_iff ci_equal_def)
  from c(2,3) have s2: "?s2 = 93 # tl ?s2" by (cases ?s2) auto
  have "s = take (length L) s @ ?s1" by simp
  also have "?s1 = ?ds @ ?s2" by simp
  finally have "s = take (length L) s @ ?ds @ 93 # tl ?s2" using s2 by simp
  moreover have "length (take (length L) s) = length L" using len by simp
  ultimately show ?thesis
    using ci c(1) ms e list_all_takeWhile [of is_digit ?s1]
    by (intro exI [of _ "take (length L) s"] exI [of _ ?ds] exI [of _ "tl ?s2"]) simp
qed

lemma amount_rx_implements:
  "implements True [Lit L, Open, Plus Digit, Close, Lit [93]] (amount_token L)"
  unfolding implements_def
proof (intro conjI allI impI)
  fix t n ms e
  assume n: "n \<le> length t"
    and r: "rx True [Lit L, Open, Plus Digit, Close, Lit [93]] n (drop n t) = Some (ms, e)"
  from amount_rx_sound [OF r] obtain lit ds post where
    d: "drop n t = lit @ ds @ 93 # post" "ci_equal lit L" "ds \<noteq> []" "list_all is_digit ds"
       "ms = [n + length lit, n + length lit + length ds]"
       "e = n + length lit + length ds + 1" by blast
  from d(1) have "drop n t = lit @ ds @ (93 # post)" by simp
  from slice_drop [OF this] d(5) have g: "groups t ms = [ds]" by simp
  have "amount_token L (lit @ ds @ [93]) [ds]"
    unfolding amount_token_def js_close_bracket using d(2,3,4) by blast
  with d(1,6) g
  show "\<exists>w post. drop n t = w @ post \<and> amount_token L w (groups t ms) \<and> e = n + length w"
    by (intro exI [of _ "lit @ ds @ [93]"] exI [of _ post]) simp
next
  fix t n w post gs
  assume n: "n \<le> length t" and dr: "drop n t = w @ post" and tok: "amount_token L w gs"
  from tok obtain lit ds where
    w: "w = lit @ ds @ [93]" "gs = [ds]" "ci_equal lit L" "ds \<noteq> []" "list_all is_digit ds"
    unfolding amount_token_def js_close_bracket by blast
  let ?ms = "[n + length lit, n + length lit + length ds]"
  from dr w(1) have d: "drop n t = lit @ ds @ 93 # post" by simp
  have r: "rx True [Lit L, Open, Plus Digit, Close, Lit [93]] n (drop n t)
           = Some (?ms, n + length w)"
    unfolding d using amount_rx_complete [OF w(3,4,5), of n post] w(1) by simp
  from d have "drop n t = lit @ ds @ (93 # post)" by simp
  from slice_drop [OF this] have "groups t ?ms = gs" using w(2) by simp
  with r show "\<exists>ms. rx True [Lit L, Open, Plus Digit, Close, Lit [93]] n (drop n t)
       = Some (ms, n + length w) \<and> groups t ms = gs"
    by blast
qed

lemma category_rx_complete:
  assumes "ci_equal lit L" "ds \<noteq> []" "list_all is_digit ds" "list_all (\<lambda>c. c \<noteq> 93) tx"
  shows "rx True [Lit L, Open, Plus Digit, Close, Lit [58], Star (NotChar 93), Lit [93]] n
           (lit @ ds @ 58 # tx @ 93 # post)
         = Some ([n + length lit, n + length lit + length ds],
                 n + length lit + length ds + 1 + length tx + 1)"
proof -
  have len: "length L = length lit" using assms(1) by (simp add: ci_equal_length)
  have lm: "lit_match True L (lit @ ds @ 58 # tx @ 93 # post)"
    using assms(1) by (rule lit_match_ci_append)
  have d1: "drop (length L) (lit @ ds @ 58 # tx @ 93 # post) = ds @ 58 # tx @ 93 # post"
    using len by simp
  have n2: "takeWhile is_digit (ds @ 58 # tx @ 93 # post) = ds"
    "dropWhile is_digit (ds @ 58 # tx @ 93 # post) = 58 # tx @ 93 # post"
    using tw_split [OF assms(3) not_digit_93_58(2), of "tx @ 93 # post"] by simp_all
  have n3: "takeWhile (\<lambda>c. c \<noteq> 93) (tx @ 93 # post) = tx"
    "dropWhile (\<lambda>c. c \<noteq> 93) (tx @ 93 # post) = 93 # post"
    using tw_split [OF assms(4), of 93 post] by simp_all
  have t: "tl (58 # tx @ 93 # post) = tx @ 93 # post" by simp
  show ?thesis
    unfolding rx_category_closed d1 n2 Let_def t n3 using lm assms(2) by (simp add: len)
qed

lemma category_rx_sound:
  assumes "rx True [Lit L, Open, Plus Digit, Close, Lit [58], Star (NotChar 93), Lit [93]] n s
           = Some (ms, e)"
  shows "\<exists>lit ds tx post. s = lit @ ds @ 58 # tx @ 93 # post \<and> ci_equal lit L
           \<and> ds \<noteq> [] \<and> list_all is_digit ds \<and> list_all (\<lambda>c. c \<noteq> 93) tx
           \<and> ms = [n + length lit, n + length lit + length ds]
           \<and> e = n + length lit + length ds + 1 + length tx + 1"
proof -
  let ?s1 = "drop (length L) s"
  let ?ds = "takeWhile is_digit ?s1"
  let ?s2 = "dropWhile is_digit ?s1"
  let ?tx = "takeWhile (\<lambda>c. c \<noteq> 93) (tl ?s2)"
  let ?s3 = "dropWhile (\<lambda>c. c \<noteq> 93) (tl ?s2)"
  from assms have lm: "lit_match True L s"
    unfolding rx_category_closed by (simp split: if_splits)
  with assms have c: "?ds \<noteq> []" "?s2 \<noteq> []" "hd ?s2 = 58"
    unfolding rx_category_closed by (simp_all add: Let_def split: if_splits)
  with assms lm have c2: "?s3 \<noteq> []" "hd ?s3 = 93"
    and ms: "ms = [n + length L, n + length L + length ?ds]"
    and e: "e = n + length L + length ?ds + 1 + length ?tx + 1"
    unfolding rx_category_closed by (simp_all add: Let_def split: if_splits)
  from lm have len: "length L \<le> length s" and ci: "ci_equal (take (length L) s) L"
    by (simp_all add: lit_match_iff ci_equal_def)
  from c(2,3) have s2: "?s2 = 58 # tl ?s2" by (cases ?s2) auto
  from c2 have s3: "?s3 = 93 # tl ?s3" by (cases ?s3) auto
  have "tl ?s2 = ?tx @ ?s3" by simp
  with s3 have t: "tl ?s2 = ?tx @ 93 # tl ?s3" by simp
  have "s = take (length L) s @ ?s1" by simp
  also have "?s1 = ?ds @ ?s2" by simp
  also have "?s2 = 58 # ?tx @ 93 # tl ?s3" using s2 t by simp
  finally have "s = take (length L) s @ ?ds @ 58 # ?tx @ 93 # tl ?s3" by simp
  moreover have "length (take (length L) s) = length L" using len by simp
  ultimately show ?thesis
    using ci c(1) ms e list_all_takeWhile [of is_digit ?s1]
      list_all_takeWhile [of "\<lambda>c. c \<noteq> 93" "tl ?s2"]
    by (intro exI [of _ "take (length L) s"] exI [of _ ?ds] exI [of _ ?tx] exI [of _ "tl ?s3"])
       simp
qed

lemma category_rx_implements:
  "implements True (category_rx name) (category_token name)"
  unfolding implements_def category_rx_def js_colon js_close_bracket
proof (intro conjI allI impI)
  let ?L = "js ''['' @ name @ js '' +''"
  let ?R = "[Lit ?L, Open, Plus Digit, Close, Lit [58], Star (NotChar 93), Lit [93]]"
  fix t n ms e
  assume n: "n \<le> length t" and r: "rx True ?R n (drop n t) = Some (ms, e)"
  from category_rx_sound [OF r] obtain lit ds tx post where
    d: "drop n t = lit @ ds @ 58 # tx @ 93 # post" "ci_equal lit ?L" "ds \<noteq> []"
       "list_all is_digit ds" "list_all (\<lambda>c. c \<noteq> 93) tx"
       "ms = [n + length lit, n + length lit + length ds]"
       "e = n + length lit + length ds + 1 + length tx + 1" by blast
  from d(1) have "drop n t = lit @ ds @ (58 # tx @ 93 # post)" by simp
  from slice_drop [OF this] d(6) have g: "groups t ms = [ds]" by simp
  have "category_token name (lit @ ds @ [58] @ tx @ [93]) [ds]"
    unfolding category_token_def js_close_bracket js_colon using d(2,3,4,5) by blast
  with d(1,7) g
  show "\<exists>w post. drop n t = w @ post \<and> category_token name w (groups t ms) \<and> e = n + length w"
    by (intro exI [of _ "lit @ ds @ [58] @ tx @ [93]"] exI [of _ post]) simp
next
  let ?L = "js ''['' @ name @ js '' +''"
  let ?R = "[Lit ?L, Open, Plus Digit, Close, Lit [58], Star (NotChar 93), Lit [93]]"
  fix t n w post gs
  assume n: "n \<le> length t" and dr: "drop n t = w @ post" and tok: "category_token name w gs"
  from tok obtain lit ds tx where
    w: "w = lit @ ds @ [58] @ tx @ [93]" "gs = [ds]" "ci_equal lit ?L" "ds \<noteq> []"
       "list_all is_digit ds" "list_all (\<lambda>c. c \<noteq> 93) tx"
    unfolding category_token_def js_close_bracket js_colon by blast
  let ?ms = "[n + length lit, n + length lit + length ds]"
  from dr w(1) have d: "drop n t = lit @ ds @ 58 # tx @ 93 # post" by simp
  have r: "rx True ?R n (drop n t) = Some (?ms, n + length w)"
    unfolding d using category_rx_complete [OF w(3,4,5,6), of n post] w(1) by simp
  from d have "drop n t = lit @ ds @ (58 # tx @ 93 # post)" by simp
  from slice_drop [OF this] have "groups t ?ms = gs" using w(2) by simp
  with r show "\<exists>ms. rx True ?R n (drop n t) = Some (ms, n + length w) \<and> groups t ms = gs"
    by blast
qed

lemma total_rx_implements: "implements True totalScoreRegex (amount_token (js ''[TOTAL: +''))"
  unfolding totalScoreRegex_def js_close_bracket by (rule amount_rx_implements)

lemma old_rx_implements: "implements True oldScoreRegex (amount_token (js ''[Score: +''))"
  unfolding oldScoreRegex_def js_close_bracket by (rule amount_rx_implements)

lemma js_match_shape: "js_match i R t = Some m \<Longrightarrow> \<exists>m0 gs. m = m0 # gs"
  by (auto simp: js_match_def split: option.splits prod.splits)

lemma first_token_value:
  assumes "first_token tok t gs" and "\<forall>w gs. tok w gs \<longrightarrow> P gs"
  shows "P gs"
  using assms unfolding first_token_def token_at_def by blast

lemma group1_Some_iff:
  assumes imp: "implements i R tok"
    and one: "\<forall>w gs. tok w gs \<longrightarrow> (\<exists>g. gs = [g] \<and> g \<noteq> [])"
  shows "group1 (js_match i R t) = Some g \<longleftrightarrow> first_token tok t [g]"
proof
  assume "group1 (js_match i R t) = Some g"
  then obtain m0 rest where m: "js_match i R t = Some (m0 # g # rest)" and "g \<noteq> []"
    by (auto simp: group1_def split: option.splits list.splits if_splits)
  then have ft: "first_token tok t (g # rest)"
    using implements_Some [OF imp, of t "g # rest"] by blast
  from first_token_value [OF ft one]
  have "rest = []" by blast
  with ft show "first_token tok t [g]" by simp
next
  assume ft: "first_token tok t [g]"
  then obtain m0 where m: "js_match i R t = Some (m0 # [g])"
    using implements_Some [OF imp, of t "[g]"] by blast
  from first_token_value [OF ft one]
  have "g \<noteq> []" by blast
  with m show "group1 (js_match i R t) = Some g" by (simp add: group1_def)
qed

lemma group1_None_iff:
  assumes imp: "implements i R tok"
    and one: "\<forall>w gs. tok w gs \<longrightarrow> (\<exists>g. gs = [g] \<and> g \<noteq> [])"
  shows "group1 (js_match i R t) = None \<longleftrightarrow> no_token tok t"
proof
  assume g: "group1 (js_match i R t) = None"
  show "no_token tok t"
  proof (cases "js_match i R t")
    case None
    then show ?thesis using implements_None [OF imp] by blast
  next
    case (Some m)
    then obtain m0 gs where m: "m = m0 # gs" using js_match_shape by blast
    with Some have ft: "first_token tok t gs" using implements_Some [OF imp, of t gs] by blast
    from first_token_value [OF ft one]
    obtain g0 where "gs = [g0]" "g0 \<noteq> []" by blast
    with Some m have "group1 (js_match i R t) = Some g0" by (simp add: group1_def)
    with g show ?thesis by simp
  qed
next
  assume "no_token tok t"
  then have "js_match i R t = None" using implements_None [OF imp] by blast
  then show "group1 (js_match i R t) = None" by (simp add: group1_def)
qed

lemma group1_None_match:
  assumes imp: "implements i R tok"
    and one: "\<forall>w gs. tok w gs \<longrightarrow> (\<exists>g. gs = [g] \<and> g \<noteq> [])"
  shows "js_match i R t = None \<longleftrightarrow> group1 (js_match i R t) = None"
  using group1_None_iff [OF imp one] implements_None [OF imp] by blast

lemma amount_token_one: "\<forall>w gs. amount_token L w gs \<longrightarrow> (\<exists>g. gs = [g] \<and> g \<noteq> [])"
  unfolding amount_token_def by blast

lemma category_token_one: "\<forall>w gs. category_token nm w gs \<longrightarrow> (\<exists>g. gs = [g] \<and> g \<noteq> [])"
  unfolding category_token_def by blast

lemma badge_token_one: "\<forall>w gs. badge_token w gs \<longrightarrow> (\<exists>g. gs = [g] \<and> g \<noteq> [])"
  unfolding badge_token_def by blast

lemma decimal_snoc: "decimal (ds @ [d]) = 10 * decimal ds + (d - 48)"
  by (simp add: decimal_def)

lemma written_amount_snoc: "written_amount (ds @ [d]) = 10 * written_amount ds + (d - 48)"
proof -
  have "written_amount (ds @ [d])
        = (\<Sum>i<Suc (length ds). ((d # rev ds) ! i - 48) * 10 ^ i)"
    by (simp add: written_amount_def)
  also have "\<dots> = (d - 48) + (\<Sum>i<length ds. (rev ds ! i - 48) * 10 ^ Suc i)"
    by (subst sum.lessThan_Suc_shift) simp
  also have "(\<Sum>i<length ds. (rev ds ! i - 48) * 10 ^ Suc i)
             = 10 * (\<Sum>i<length ds. (rev ds ! i - 48) * 10 ^ i)"
    by (simp add: sum_distrib_left mult.commute mult.left_commute)
  finally show ?thesis by (simp add: written_amount_def)
qed

text \<open>The integer that \<open>parseInt\<close> reads off the digits is the amount written.\<close>

lemma decimal_written_amount: "decimal ds = written_amount ds"
proof (induction ds rule: rev_induct)
  case Nil
  show ?case by (simp add: decimal_def written_amount_def)
next
  case (snoc d ds)
  then show ?case by (simp add: decimal_snoc written_amount_snoc)
qed

lemma to_number_exact: "n \<le> 9007199254740992 \<Longrightarrow> to_number n = enat n"
  by (simp add: to_number_def)

lemma js_plus_exact:
  "a + b \<le> 9007199254740992 \<Longrightarrow> js_plus (enat a) (enat b) = enat (a + b)"
  by (simp add: js_plus_def to_number_def)

lemma parseInt_or_zero:
  "(case x of Some g \<Rightarrow> parseInt g | None \<Rightarrow> 0)
   = to_number (case x of Some g \<Rightarrow> decimal g | None \<Rightarrow> 0)"
  by (cases x) (simp_all add: parseInt_def to_number_def zero_enat_def)

lemma amount_of_group1:
  assumes imp: "implements i R tok"
    and one: "\<forall>w gs. tok w gs \<longrightarrow> (\<exists>g. gs = [g] \<and> g \<noteq> [])"
  shows "amount_or_zero tok t n
         \<longleftrightarrow> n = (case group1 (js_match i R t) of Some g \<Rightarrow> decimal g | None \<Rightarrow> 0)"
proof (cases "group1 (js_match i R t)")
  case None
  then have nt: "no_token tok t" using group1_None_iff [OF imp one] by blast
  have "\<not> token_amount tok t n"
  proof
    assume "token_amount tok t n"
    then obtain ds where "first_token tok t [ds]" unfolding token_amount_def by blast
    then have "group1 (js_match i R t) = Some ds" using group1_Some_iff [OF imp one] by blast
    with None show False by simp
  qed
  with nt None show ?thesis by (simp add: amount_or_zero_def)
next
  case (Some g)
  then have ft: "first_token tok t [g]" using group1_Some_iff [OF imp one] by blast
  have "\<not> no_token tok t"
  proof
    assume "no_token tok t"
    then have "group1 (js_match i R t) = None" using group1_None_iff [OF imp one] by blast
    with Some show False by simp
  qed
  moreover have "token_amount tok t n \<longleftrightarrow> n = decimal g"
  proof
    assume "token_amount tok t n"
    then obtain ds where ds: "first_token tok t [ds]" "n = written_amount ds"
      unfolding token_amount_def by blast
    then have "group1 (js_match i R t) = Some ds" using group1_Some_iff [OF imp one] by blast
    with Some ds(2) show "n = decimal g" by (simp add: decimal_written_amount)
  next
    assume "n = decimal g"
    then have "n = written_amount g" by (simp add: decimal_written_amount)
    with ft show "token_amount tok t n" unfolding token_amount_def by blast
  qed
  ultimately show ?thesis using Some by (simp add: amount_or_zero_def)
qed

text \<open>The score read off a token that the pattern finds.\<close>

lemma parseInt_token_amount:
  assumes imp: "implements i R tok"
    and one: "\<forall>w gs. tok w gs \<longrightarrow> (\<exists>g. gs = [g] \<and> g \<noteq> [])"
    and "token_amount tok t n"
  shows "\<exists>ds. group1 (js_match i R t) = Some ds \<and> parseInt ds = to_number n"
proof -
  from assms(3) obtain ds where ds: "first_token tok t [ds]" "n = written_amount ds"
    unfolding token_amount_def by blast
  then have "group1 (js_match i R t) = Some ds" using group1_Some_iff [OF imp one] by blast
  moreover have "parseInt ds = to_number n"
    using ds(2) by (simp add: parseInt_def decimal_written_amount)
  ultimately show ?thesis by blast
qed

section \<open>Claims about the annotations\<close>

text \<open>
  Claim C2, amended. The score of the multi-category dialogue mode is: the amount in the
  (first) \<open>[TOTAL: +N]\<close> token when one is present; otherwise, when at least one
  category token is present, the sum of the amounts in the (first)
  \<open>[REASONING +N: ...]\<close>, \<open>[ENGAGEMENT +N: ...]\<close> and \<open>[BONUS +N: ...]\<close> tokens, each 0
  when absent; otherwise the amount in the (first) legacy \<open>[Score: +N]\<close> token when one
  is present; otherwise 0. The score is a JavaScript Number: it is the amount (the sum)
  itself when that is at most \<open>2^53\<close>, and in general the amount rounded to a Number
  (the sum computed with the rounding addition of Numbers).
\<close>

theorem tz_score_precedence:
  "(\<forall>n. token_amount total_token t n \<longrightarrow>
      tz_score t = to_number n \<and> (n \<le> 9007199254740992 \<longrightarrow> tz_score t = enat n))
 \<and> (no_token total_token t
      \<and> \<not> (no_token reasoning_token t \<and> no_token engagement_token t \<and> no_token bonus_token t)
    \<longrightarrow> (\<forall>r e b. amount_or_zero reasoning_token t r \<and> amount_or_zero engagement_token t e
                  \<and> amount_or_zero bonus_token t b \<longrightarrow>
            tz_score t = js_plus (js_plus (to_number r) (to_number e)) (to_number b)
          \<and> (r + e + b \<le> 9007199254740992 \<longrightarrow> tz_score t = enat (r + e + b))))
 \<and> (no_token total_token t \<and> no_token reasoning_token t \<and> no_token engagement_token t
      \<and> no_token bonus_token t
    \<longrightarrow> (\<forall>n. token_amount legacy_token t n \<longrightarrow>
            tz_score t = to_number n \<and> (n \<le> 9007199254740992 \<longrightarrow> tz_score t = enat n)))
 \<and> (no_token total_token t \<and> no_token reasoning_token t \<and> no_token engagement_token t
      \<and> no_token bonus_token t \<and> no_token legacy_token t
    \<longrightarrow> tz_score t = 0)"
proof -
  note T = total_rx_implements [folded total_token_def]
  note L = old_rx_implements [folded legacy_token_def]
  note R = category_rx_implements [of "js ''REASONING''", folded reasoning_token_def reasoningRegex_def]
  note E = category_rx_implements [of "js ''ENGAGEMENT''", folded engagement_token_def engagementRegex_def]
  note B = category_rx_implements [of "js ''BONUS''", folded bonus_token_def bonusRegex_def]
  have oneT: "\<forall>w gs. total_token w gs \<longrightarrow> (\<exists>g. gs = [g] \<and> g \<noteq> [])"
    unfolding total_token_def by (rule amount_token_one)
  have oneL: "\<forall>w gs. legacy_token w gs \<longrightarrow> (\<exists>g. gs = [g] \<and> g \<noteq> [])"
    unfolding legacy_token_def by (rule amount_token_one)
  have oneR: "\<forall>w gs. reasoning_token w gs \<longrightarrow> (\<exists>g. gs = [g] \<and> g \<noteq> [])"
    unfolding reasoning_token_def by (rule category_token_one)
  have oneE: "\<forall>w gs. engagement_token w gs \<longrightarrow> (\<exists>g. gs = [g] \<and> g \<noteq> [])"
    unfolding engagement_token_def by (rule category_token_one)
  have oneB: "\<forall>w gs. bonus_token w gs \<longrightarrow> (\<exists>g. gs = [g] \<and> g \<noteq> [])"
    unfolding bonus_token_def by (rule category_token_one)
  have exact: "x = enat n" if "x = to_number n" "n \<le> 9007199254740992" for x n
    using that by (simp add: to_number_exact)
  have p1: "tz_score t = to_number n" if "token_amount total_token t n" for n
  proof -
    from parseInt_token_amount [OF T oneT that] obtain ds
      where "group1 (js_match True totalScoreRegex t) = Some ds" "parseInt ds = to_number n"
      by blast
    then show ?thesis by (simp add: tz_score_def Let_def)
  qed
  have p2: "tz_score t = js_plus (js_plus (to_number r) (to_number e)) (to_number b)"
    if nt: "no_token total_token t"
      and some: "\<not> (no_token reasoning_token t \<and> no_token engagement_token t \<and> no_token bonus_token t)"
      and r: "amount_or_zero reasoning_token t r" and e: "amount_or_zero engagement_token t e"
      and b: "amount_or_zero bonus_token t b" for r e b
  proof -
    from nt have g: "group1 (js_match True totalScoreRegex t) = None"
      using group1_None_iff [OF T oneT] by blast
    from some have c: "js_match True reasoningRegex t \<noteq> None \<or> js_match True engagementRegex t \<noteq> None
        \<or> js_match True bonusRegex t \<noteq> None"
      using implements_None [OF R] implements_None [OF E] implements_None [OF B] by blast
    from r e b show ?thesis
      unfolding amount_of_group1 [OF R oneR] amount_of_group1 [OF E oneE]
        amount_of_group1 [OF B oneB]
      using g c by (simp add: tz_score_def Let_def parseInt_or_zero)
  qed
  have p2x: "tz_score t = enat (r + e + b)"
    if "tz_score t = js_plus (js_plus (to_number r) (to_number e)) (to_number b)"
      and le: "r + e + b \<le> 9007199254740992" for r e b
  proof -
    from le have "to_number r = enat r" "to_number e = enat e" "to_number b = enat b"
      by (simp_all add: to_number_exact)
    moreover from le have "js_plus (enat r) (enat e) = enat (r + e)"
      by (simp add: js_plus_exact)
    moreover from le have "js_plus (enat (r + e)) (enat b) = enat (r + e + b)"
      by (simp add: js_plus_exact)
    ultimately show ?thesis using that(1) by simp
  qed
  have none: "group1 (js_match True totalScoreRegex t) = None
      \<and> js_match True reasoningRegex t = None \<and> js_match True engagementRegex t = None
      \<and> js_match True bonusRegex t = None"
    if "no_token total_token t" "no_token reasoning_token t" "no_token engagement_token t"
      "no_token bonus_token t"
    using that group1_None_iff [OF T oneT] implements_None [OF R] implements_None [OF E]
      implements_None [OF B] by blast
  have p3: "tz_score t = to_number n"
    if nt: "no_token total_token t" "no_token reasoning_token t" "no_token engagement_token t"
      "no_token bonus_token t" and l: "token_amount legacy_token t n" for n
  proof -
    from parseInt_token_amount [OF L oneL l] obtain ds
      where "group1 (js_match True oldScoreRegex t) = Some ds" "parseInt ds = to_number n"
      by blast
    then show ?thesis using none [OF nt] by (simp add: tz_score_def Let_def)
  qed
  have p4: "tz_score t = 0"
    if nt: "no_token total_token t" "no_token reasoning_token t" "no_token engagement_token t"
      "no_token bonus_token t" and l: "no_token legacy_token t"
  proof -
    from l have "group1 (js_match True oldScoreRegex t) = None"
      using group1_None_iff [OF L oneL] by blast
    then show ?thesis using none [OF nt] by (simp add: tz_score_def Let_def)
  qed
  show ?thesis
  proof (intro conjI allI impI)
    fix n assume "token_amount total_token t n"
    then show "tz_score t = to_number n" by (rule p1)
  next
    fix n assume "token_amount total_token t n" "n \<le> 9007199254740992"
    then show "tz_score t = enat n" using exact [OF p1] by blast
  next
    fix r e b
    assume "no_token total_token t
      \<and> \<not> (no_token reasoning_token t \<and> no_token engagement_token t \<and> no_token bonus_token t)"
      "amount_or_zero reasoning_token t r \<and> amount_or_zero engagement_token t e
                  \<and> amount_or_zero bonus_token t b"
    then show "tz_score t = js_plus (js_plus (to_number r) (to_number e)) (to_number b)"
      using p2 by blast
  next
    fix r e b
    assume "no_token total_token t
      \<and> \<not> (no_token reasoning_token t \<and> no_token engagement_token t \<and> no_token bonus_token t)"
      "amount_or_zero reasoning_token t r \<and> amount_or_zero engagement_token t e
                  \<and> amount_or_zero bonus_token t b"
      "r + e + b \<le> 9007199254740992"
    then show "tz_score t = enat (r + e + b)" using p2x [OF p2] by blast
  next
    fix n
    assume "no_token total_token t \<and> no_token reasoning_token t \<and> no_token engagement_token t
      \<and> no_token bonus_token t" "token_amount legacy_token t n"
    then show "tz_score t = to_number n" using p3 by blast
  next
    fix n
    assume "no_token total_token t \<and> no_token reasoning_token t \<and> no_token engagement_token t
      \<and> no_token bonus_token t" "token_amount legacy_token t n" "n \<le> 9007199254740992"
    then show "tz_score t = enat n" using exact [OF p3] by blast
  next
    assume "no_token total_token t \<and> no_token reasoning_token t \<and> no_token engagement_token t
      \<and> no_token bonus_token t \<and> no_token legacy_token t"
    then show "tz_score t = 0" using p4 by blast
  qed
qed

lemmas tz_rx_defs = totalScoreRegex_def oldScoreRegex_def reasoningRegex_def engagementRegex_def
  bonusRegex_def category_rx_def group1_def

theorem tz_score_precedence_witness:
  "tz_score (js ''Fair. [REASONING +10: a] [ENGAGEMENT +5: b] [BONUS +3: c] [total: +20]'') = 20
 \<and> tz_score (js ''Fair. [reasoning +10: a] [BONUS +5: b]'') = 15
 \<and> tz_score (js ''Fair. [Score: +7]'') = 7
 \<and> tz_score (js ''Fair.'') = 0"
proof -
  note T = total_rx_implements [folded total_token_def]
  note L = old_rx_implements [folded legacy_token_def]
  note R = category_rx_implements [of "js ''REASONING''", folded reasoning_token_def reasoningRegex_def]
  note E = category_rx_implements [of "js ''ENGAGEMENT''", folded engagement_token_def engagementRegex_def]
  note B = category_rx_implements [of "js ''BONUS''", folded bonus_token_def bonusRegex_def]
  note oneT = amount_token_one [of "js ''[TOTAL: +''", folded total_token_def]
  note oneL = amount_token_one [of "js ''[Score: +''", folded legacy_token_def]
  note oneR = category_token_one [of "js ''REASONING''", folded reasoning_token_def]
  note oneE = category_token_one [of "js ''ENGAGEMENT''", folded engagement_token_def]
  note oneB = category_token_one [of "js ''BONUS''", folded bonus_token_def]
  let ?t1 = "js ''Fair. [REASONING +10: a] [ENGAGEMENT +5: b] [BONUS +3: c] [total: +20]''"
  let ?t2 = "js ''Fair. [reasoning +10: a] [BONUS +5: b]''"
  let ?t3 = "js ''Fair. [Score: +7]''"
  let ?t4 = "js ''Fair.''"
  have "group1 (js_match True totalScoreRegex ?t1) = Some (js ''20'')"
    by (simp add: tz_rx_defs rx_eval)
  then have "first_token total_token ?t1 [js ''20'']"
    using group1_Some_iff [OF T oneT] by blast
  moreover have "written_amount (js ''20'') = 20"
    unfolding decimal_written_amount [symmetric] by (simp add: rx_eval)
  ultimately have "token_amount total_token ?t1 20" unfolding token_amount_def by metis
  moreover have "(20::nat) \<le> 9007199254740992" by simp
  ultimately have "tz_score ?t1 = enat 20" using tz_score_precedence [of ?t1] by blast
  then have w1: "tz_score ?t1 = 20" by (simp add: numeral_eq_enat)

  have "group1 (js_match True totalScoreRegex ?t2) = None" by (simp add: tz_rx_defs rx_eval)
  then have n2: "no_token total_token ?t2" using group1_None_iff [OF T oneT] by blast
  have r2: "group1 (js_match True reasoningRegex ?t2) = Some (js ''10'')"
    by (simp add: tz_rx_defs rx_eval)
  then have "\<not> no_token reasoning_token ?t2"
    using group1_None_iff [OF R oneR, of ?t2] by simp
  moreover have "amount_or_zero reasoning_token ?t2 10"
    unfolding amount_of_group1 [OF R oneR] r2 by (simp add: rx_eval)
  moreover have "amount_or_zero engagement_token ?t2 0"
    unfolding amount_of_group1 [OF E oneE] by (simp add: tz_rx_defs rx_eval)
  moreover have "amount_or_zero bonus_token ?t2 5"
    unfolding amount_of_group1 [OF B oneB] by (simp add: tz_rx_defs rx_eval)
  moreover have "(10::nat) + 0 + 5 \<le> 9007199254740992" by simp
  ultimately have "tz_score ?t2 = enat (10 + 0 + 5)"
    using tz_score_precedence [of ?t2] n2 by blast
  then have w2: "tz_score ?t2 = 15" by (simp add: numeral_eq_enat)

  have "group1 (js_match True totalScoreRegex ?t3) = None" by (simp add: tz_rx_defs rx_eval)
  then have n3: "no_token total_token ?t3" using group1_None_iff [OF T oneT] by blast
  have "js_match True reasoningRegex ?t3 = None" by (simp add: tz_rx_defs rx_eval)
  then have n3r: "no_token reasoning_token ?t3" using implements_None [OF R] by blast
  have "js_match True engagementRegex ?t3 = None" by (simp add: tz_rx_defs rx_eval)
  then have n3e: "no_token engagement_token ?t3" using implements_None [OF E] by blast
  have "js_match True bonusRegex ?t3 = None" by (simp add: tz_rx_defs rx_eval)
  then have n3b: "no_token bonus_token ?t3" using implements_None [OF B] by blast
  have "group1 (js_match True oldScoreRegex ?t3) = Some (js ''7'')"
    by (simp add: tz_rx_defs rx_eval)
  then have "first_token legacy_token ?t3 [js ''7'']"
    using group1_Some_iff [OF L oneL] by blast
  moreover have "written_amount (js ''7'') = 7"
    unfolding decimal_written_amount [symmetric] by (simp add: rx_eval)
  ultimately have "token_amount legacy_token ?t3 7" unfolding token_amount_def by metis
  moreover have "(7::nat) \<le> 9007199254740992" by simp
  ultimately have "tz_score ?t3 = enat 7"
    using tz_score_precedence [of ?t3] n3 n3r n3e n3b by blast
  then have w3: "tz_score ?t3 = 7" by (simp add: numeral_eq_enat)

  have "js_match True totalScoreRegex ?t4 = None" by (simp add: tz_rx_defs rx_eval)
  then have n4: "no_token total_token ?t4" using implements_None [OF T] by blast
  have "js_match True reasoningRegex ?t4 = None" by (simp add: tz_rx_defs rx_eval)
  then have n4r: "no_token reasoning_token ?t4" using implements_None [OF R] by blast
  have "js_match True engagementRegex ?t4 = None" by (simp add: tz_rx_defs rx_eval)
  then have n4e: "no_token engagement_token ?t4" using implements_None [OF E] by blast
  have "js_match True bonusRegex ?t4 = None" by (simp add: tz_rx_defs rx_eval)
  then have n4b: "no_token bonus_token ?t4" using implements_None [OF B] by blast
  have "js_match True oldScoreRegex ?t4 = None" by (simp add: tz_rx_defs rx_eval)
  then have n4l: "no_token legacy_token ?t4" using implements_None [OF L] by blast
  from tz_score_precedence [of ?t4] n4 n4r n4e n4b n4l have w4: "tz_score ?t4 = 0" by blast
  from w1 w2 w3 w4 show ?thesis by blast
qed

text \<open>
  Claim C2 as it is stated fails for an amount that is not a JavaScript Number: the
  amount written in \<open>[TOTAL: +9007199254740993]\<close> is \<open>2^53 + 1\<close>, and the score of the
  reply is \<open>2^53\<close>.
\<close>

theorem tz_score_rounding_counterexample:
  "token_amount total_token (js ''[TOTAL: +9007199254740993]'') 9007199254740993
 \<and> tz_score (js ''[TOTAL: +9007199254740993]'') = 9007199254740992
 \<and> (9007199254740992 :: enat) \<noteq> enat 9007199254740993"
proof -
  note T = total_rx_implements [folded total_token_def]
  note oneT = amount_token_one [of "js ''[TOTAL: +''", folded total_token_def]
  let ?t = "js ''[TOTAL: +9007199254740993]''"
  have g: "group1 (js_match True totalScoreRegex ?t) = Some (js ''9007199254740993'')"
    by (simp add: tz_rx_defs rx_eval)
  then have "first_token total_token ?t [js ''9007199254740993'']"
    using group1_Some_iff [OF T oneT] by blast
  moreover have "written_amount (js ''9007199254740993'') = 9007199254740993"
    unfolding decimal_written_amount [symmetric] by (simp add: decimal_def js_def)
  ultimately have a: "token_amount total_token ?t 9007199254740993"
    unfolding token_amount_def by metis
  have "parseInt (js ''9007199254740993'') = 9007199254740992"
    by (simp add: parseInt_def decimal_def to_number_def js_def numeral_eq_enat
          bit_length.simps Let_def)
  with g have b: "tz_score ?t = 9007199254740992" by (simp add: tz_score_def Let_def)
  have "(9007199254740992 :: enat) \<noteq> enat 9007199254740993" by (simp add: numeral_eq_enat)
  with a b show ?thesis by blast
qed

lemma dropWhile_id: "s = [] \<or> \<not> P (hd s) \<Longrightarrow> dropWhile P s = s"
  by (cases s) auto

lemma trim_id:
  assumes "list_all (\<lambda>c. \<not> is_space c) s"
  shows "trim s = s"
proof (cases "s = []")
  case True
  then show ?thesis by (simp add: trim_def)
next
  case False
  with assms have "\<not> is_space (hd s)" by (cases s) auto
  then have a: "dropWhile is_space s = s" by (simp add: dropWhile_id)
  from False assms have "\<not> is_space (last s)" by (simp add: list_all_iff)
  with False have "\<not> is_space (hd (rev s))" by (simp add: hd_rev)
  then have "dropWhile is_space (rev s) = rev s" by (simp add: dropWhile_id)
  with a show ?thesis by (simp add: trim_def)
qed

lemma name_chars_no_space: "list_all badge_name_char nm \<Longrightarrow> list_all (\<lambda>c. \<not> is_space c) nm"
  using name_char_not_space by (auto simp: list_all_iff)

lemma extract_badge_type_group1:
  "extract_badge_type t = map_option trim (group1 (js_match True badge_rx t))"
  by (simp add: extract_badge_type_def group1_def split: option.splits list.splits)

lemma first_badge_token_name:
  assumes "first_token badge_token t [nm]"
  shows "nm \<noteq> [] \<and> list_all badge_name_char nm"
proof -
  have "\<forall>w gs. badge_token w gs \<longrightarrow> (\<forall>g. gs = [g] \<longrightarrow> g \<noteq> [] \<and> list_all badge_name_char g)"
    unfolding badge_token_def by blast
  from first_token_value [OF assms this] show ?thesis by blast
qed

lemma extract_badge_type_Some_iff:
  "extract_badge_type t = Some nm \<longleftrightarrow> first_token badge_token t [nm]"
proof
  assume "extract_badge_type t = Some nm"
  then obtain g where g: "group1 (js_match True badge_rx t) = Some g" "nm = trim g"
    by (auto simp: extract_badge_type_group1)
  then have ft: "first_token badge_token t [g]"
    using group1_Some_iff [OF badge_rx_implements badge_token_one] by blast
  from first_badge_token_name [OF ft] have "trim g = g"
    by (simp add: trim_id name_chars_no_space)
  with g(2) ft show "first_token badge_token t [nm]" by simp
next
  assume ft: "first_token badge_token t [nm]"
  then have "group1 (js_match True badge_rx t) = Some nm"
    using group1_Some_iff [OF badge_rx_implements badge_token_one] by blast
  moreover from first_badge_token_name [OF ft] have "trim nm = nm"
    by (simp add: trim_id name_chars_no_space)
  ultimately show "extract_badge_type t = Some nm" by (simp add: extract_badge_type_group1)
qed

lemma extract_badge_type_None_iff:
  "extract_badge_type t = None \<longleftrightarrow> no_token badge_token t"
  using group1_None_iff [OF badge_rx_implements badge_token_one, of t]
  by (simp add: extract_badge_type_group1)

lemma group1_badge_extract:
  "group1 (js_match True badge_rx t) = extract_badge_type t"
proof (cases "group1 (js_match True badge_rx t)")
  case None
  then show ?thesis by (simp add: extract_badge_type_group1)
next
  case (Some g)
  then have ft: "first_token badge_token t [g]"
    using group1_Some_iff [OF badge_rx_implements badge_token_one] by blast
  from first_badge_token_name [OF ft] have "trim g = g"
    by (simp add: trim_id name_chars_no_space)
  with Some show ?thesis by (simp add: extract_badge_type_group1)
qed

text \<open>
  Claim C7, amended. For every input text, badge extraction yields the name carried by
  the first badge token of the text and nothing when the text holds no badge token: at
  most one badge is extracted however many tokens are present. A name is a non-empty
  string of ASCII letters of either case and underscores (the pattern carries the flag
  \<open>i\<close>). The server handlers keep the name as written; the client helper
  \<open>extractBadgeAward\<close> lower-cases it and keeps it only when it is one of the five known
  badge types.
\<close>

theorem badge_extraction_first_token:
  "(extract_badge_type t = None \<longleftrightarrow> no_token badge_token t)
 \<and> (\<forall>nm. extract_badge_type t = Some nm \<longleftrightarrow> first_token badge_token t [nm])
 \<and> (\<forall>nm. extract_badge_type t = Some nm \<longrightarrow> nm \<noteq> [] \<and> list_all badge_name_char nm)
 \<and> extractBadgeAward t =
     (case extract_badge_type t of
        None \<Rightarrow> None
      | Some nm \<Rightarrow> if toLowerCase nm \<in> set BADGE_INFO_keys then Some (toLowerCase nm) else None)
 \<and> tz_badge d t =
     (case extract_badge_type t of None \<Rightarrow> None | Some nm \<Rightarrow> badge_by_name d (trim nm))"
proof (intro conjI allI impI)
  show "extract_badge_type t = None \<longleftrightarrow> no_token badge_token t"
    by (rule extract_badge_type_None_iff)
next
  fix nm show "extract_badge_type t = Some nm \<longleftrightarrow> first_token badge_token t [nm]"
    by (rule extract_badge_type_Some_iff)
next
  fix nm assume "extract_badge_type t = Some nm"
  then have "first_token badge_token t [nm]" by (simp add: extract_badge_type_Some_iff)
  then have "nm \<noteq> [] \<and> list_all badge_name_char nm" by (rule first_badge_token_name)
  then show "nm \<noteq> []" and "list_all badge_name_char nm" by simp_all
next
  show "extractBadgeAward t =
     (case extract_badge_type t of
        None \<Rightarrow> None
      | Some nm \<Rightarrow> if toLowerCase nm \<in> set BADGE_INFO_keys then Some (toLowerCase nm) else None)"
    by (simp add: extractBadgeAward_def group1_badge_extract Let_def split: option.splits)
next
  show "tz_badge d t =
     (case extract_badge_type t of None \<Rightarrow> None | Some nm \<Rightarrow> badge_by_name d (trim nm))"
    by (simp add: tz_badge_def group1_badge_extract split: option.splits)
qed

lemma extract_two_badges:
  "extract_badge_type (js ''[Badge: Fact_Checker] and [badge: link_cutter]'')
   = Some (js ''Fact_Checker'')"
  by (simp add: extract_badge_type_def badge_rx_def rx_eval)

theorem badge_extraction_first_token_witness:
  "first_token badge_token (js ''[Badge: Fact_Checker] and [badge: link_cutter]'')
     [js ''Fact_Checker'']
 \<and> list_all badge_name_char (js ''Fact_Checker'')
 \<and> extractBadgeAward (js ''[Badge: Fact_Checker] and [badge: link_cutter]'')
     = Some (js ''fact_checker'')"
proof -
  let ?t = "js ''[Badge: Fact_Checker] and [badge: link_cutter]''"
  note inst = badge_extraction_first_token [of ?t empty_db]
  have e: "extract_badge_type ?t = Some (js ''Fact_Checker'')" by (rule extract_two_badges)
  from inst e have a: "first_token badge_token ?t [js ''Fact_Checker'']" by blast
  from inst e have b: "list_all badge_name_char (js ''Fact_Checker'')" by blast
  from inst have "extractBadgeAward ?t =
     (case extract_badge_type ?t of
        None \<Rightarrow> None
      | Some nm \<Rightarrow> if toLowerCase nm \<in> set BADGE_INFO_keys then Some (toLowerCase nm) else None)"
    by blast
  also have "\<dots> = Some (js ''fact_checker'')"
    unfolding e by (simp add: rx_eval BADGE_INFO_keys_def)
  finally show ?thesis using a b by blast
qed

text \<open>Claim C7 as stated fails: a name with upper-case letters is accepted and extracted
  as written.\<close>

theorem badge_extraction_uppercase_counterexample:
  "extract_badge_type (js ''[badge: Fact_Checker]'') = Some (js ''Fact_Checker'')
 \<and> \<not> list_all lower_or_underscore (js ''Fact_Checker'')"
  by (simp add: extract_badge_type_def badge_rx_def rx_eval lower_or_underscore_def)

lemma tbl_sc1:
  "\<forall>x xs m. in_class False Space x \<longrightarrow> rx False (Open # Lit (123 # l) # r) m (x # xs) = None"
  using space_not_other by auto

lemma tbl_sc2:
  "\<forall>x xs m. in_class False (NotChar 125) x \<longrightarrow> rx False (Lit (125 # l) # r) m (x # xs) = None"
  by (rule sc_Lit) simp

lemma in_class_Not125: "in_class False (NotChar 125) = (\<lambda>c. c \<noteq> 125)"
  by (auto simp: fun_eq_iff)

lemma rx_table_closed:
  "rx False [Lit L, Star Space, Open, Lit [123], Plus (NotChar 125), Lit [125], Close, Lit [125]]
     n s =
     (if lit_match False L s
      then (let ws = takeWhile is_space (drop (length L) s);
                s2 = dropWhile is_space (drop (length L) s)
            in if s2 \<noteq> [] \<and> hd s2 = 123
               then (let body = takeWhile (\<lambda>c. c \<noteq> 125) (tl s2);
                         s3 = dropWhile (\<lambda>c. c \<noteq> 125) (tl s2)
                     in if body \<noteq> [] \<and> s3 \<noteq> [] \<and> hd s3 = 125 \<and> tl s3 \<noteq> []
                           \<and> hd (tl s3) = 125
                        then Some ([n + length L + length ws,
                                    n + length L + length ws + 1 + length body + 1],
                                   n + length L + length ws + 1 + length body + 2)
                        else None)
               else None)
      else None)"
  by (simp add: rx_Star_greedy [OF tbl_sc1] rx_Plus_greedy [OF tbl_sc2] in_class_Space
        in_class_Not125 lit_match_single Let_def add.assoc drop_Suc del: in_class.simps)


lemma js_table_open: "js ''{table:'' = [123, 116, 97, 98, 108, 101, 58]"
  by (simp add: js_def)

lemma lit_match_append: "lit_match False l (l @ r)"
  by (simp add: lit_match_iff)

lemma table_rx_complete:
  assumes "list_all is_space ws" "body \<noteq> []" "list_all (\<lambda>c. c \<noteq> 125) body"
  shows "rx False [Lit L, Star Space, Open, Lit [123], Plus (NotChar 125), Lit [125], Close,
                   Lit [125]] n (L @ ws @ 123 # body @ 125 # 125 # post)
         = Some ([n + length L + length ws, n + length L + length ws + 1 + length body + 1],
                 n + length L + length ws + 1 + length body + 2)"
proof -
  have lm: "lit_match False L (L @ ws @ 123 # body @ 125 # 125 # post)"
    by (rule lit_match_append)
  have d1: "drop (length L) (L @ ws @ 123 # body @ 125 # 125 # post)
            = ws @ 123 # body @ 125 # 125 # post" by simp
  have "\<not> is_space 123" by (simp add: is_space_def)
  from tw_split [OF assms(1) this, of "body @ 125 # 125 # post"]
  have n2: "takeWhile is_space (ws @ 123 # body @ 125 # 125 # post) = ws"
    "dropWhile is_space (ws @ 123 # body @ 125 # 125 # post) = 123 # body @ 125 # 125 # post"
    by simp_all
  have n3: "takeWhile (\<lambda>c. c \<noteq> 125) (body @ 125 # 125 # post) = body"
    "dropWhile (\<lambda>c. c \<noteq> 125) (body @ 125 # 125 # post) = 125 # 125 # post"
    using tw_split [OF assms(3), of 125 "125 # post"] by simp_all
  have t: "tl (123 # body @ 125 # 125 # post) = body @ 125 # 125 # post" by simp
  show ?thesis
    unfolding rx_table_closed d1 n2 Let_def t n3 using lm assms(2) by simp
qed

lemma table_rx_sound:
  assumes "rx False [Lit L, Star Space, Open, Lit [123], Plus (NotChar 125), Lit [125], Close,
                     Lit [125]] n s = Some (ms, e)"
  shows "\<exists>ws body post. s = L @ ws @ 123 # body @ 125 # 125 # post
           \<and> list_all is_space ws \<and> body \<noteq> [] \<and> list_all (\<lambda>c. c \<noteq> 125) body
           \<and> ms = [n + length L + length ws, n + length L + length ws + 1 + length body + 1]
           \<and> e = n + length L + length ws + 1 + length body + 2"
proof -
  let ?s1 = "drop (length L) s"
  let ?ws = "takeWhile is_space ?s1"
  let ?s2 = "dropWhile is_space ?s1"
  let ?body = "takeWhile (\<lambda>c. c \<noteq> 125) (tl ?s2)"
  let ?s3 = "dropWhile (\<lambda>c. c \<noteq> 125) (tl ?s2)"
  from assms have lm: "lit_match False L s"
    unfolding rx_table_closed by (simp split: if_splits)
  with assms have c: "?s2 \<noteq> []" "hd ?s2 = 123"
    unfolding rx_table_closed by (simp_all add: Let_def split: if_splits)
  with assms lm have c2: "?body \<noteq> []" "?s3 \<noteq> []" "hd ?s3 = 125" "tl ?s3 \<noteq> []"
      "hd (tl ?s3) = 125"
    and ms: "ms = [n + length L + length ?ws, n + length L + length ?ws + 1 + length ?body + 1]"
    and e: "e = n + length L + length ?ws + 1 + length ?body + 2"
    unfolding rx_table_closed by (simp_all add: Let_def split: if_splits)
  from lm have len: "length L \<le> length s" and eq: "take (length L) s = L"
    by (simp_all add: lit_match_iff)
  from c have s2: "?s2 = 123 # tl ?s2" by (cases ?s2) auto
  from c2(2,3) have s3: "?s3 = 125 # tl ?s3" by (cases ?s3) auto
  from c2(4,5) have s4: "tl ?s3 = 125 # tl (tl ?s3)" by (cases "tl ?s3") auto
  have "tl ?s2 = ?body @ ?s3" by simp
  with s3 s4 have t: "tl ?s2 = ?body @ 125 # 125 # tl (tl ?s3)" by simp
  have "s = take (length L) s @ ?s1" by simp
  also have "?s1 = ?ws @ ?s2" by simp
  also have "?s2 = 123 # ?body @ 125 # 125 # tl (tl ?s3)" using s2 t by simp
  finally have "s = L @ ?ws @ 123 # ?body @ 125 # 125 # tl (tl ?s3)" using eq by simp
  then show ?thesis
    using c2(1) ms e list_all_takeWhile [of is_space ?s1]
      list_all_takeWhile [of "\<lambda>c. c \<noteq> 125" "tl ?s2"]
    by (intro exI [of _ ?ws] exI [of _ ?body] exI [of _ "tl (tl ?s3)"]) simp
qed

lemma table_rx_implements: "implements False table_rx table_token"
  unfolding implements_def table_rx_def
proof (intro conjI allI impI)
  let ?L = "js ''{table:''"
  let ?R = "[Lit ?L, Star Space, Open, Lit (js ''{''), Plus (NotChar 125), Lit (js ''}''), Close,
             Lit (js ''}'')]"
  have R: "?R = [Lit ?L, Star Space, Open, Lit [123], Plus (NotChar 125), Lit [125], Close,
                 Lit [125]]" by (simp add: js_def)
  fix t n ms e
  assume n: "n \<le> length t" and r: "rx False ?R n (drop n t) = Some (ms, e)"
  from table_rx_sound [OF r [unfolded R]] obtain ws body post where
    d: "drop n t = ?L @ ws @ 123 # body @ 125 # 125 # post" "list_all is_space ws" "body \<noteq> []"
       "list_all (\<lambda>c. c \<noteq> 125) body"
       "ms = [n + length ?L + length ws, n + length ?L + length ws + 1 + length body + 1]"
       "e = n + length ?L + length ws + 1 + length body + 2" by blast
  from d(1) have "drop n t = (?L @ ws) @ ([123] @ body @ [125]) @ (125 # post)" by simp
  from slice_drop [OF this] d(5) have g: "groups t ms = [[123] @ body @ [125]]"
    by (simp add: add.assoc)
  have "table_token (?L @ ws @ [123] @ body @ [125, 125]) [[123] @ body @ [125]]"
    unfolding table_token_def using d(2,3,4) by blast
  with d(1,6) g
  show "\<exists>w post. drop n t = w @ post \<and> table_token w (groups t ms) \<and> e = n + length w"
    by (intro exI [of _ "?L @ ws @ [123] @ body @ [125, 125]"] exI [of _ post]) simp
next
  let ?L = "js ''{table:''"
  let ?R = "[Lit ?L, Star Space, Open, Lit (js ''{''), Plus (NotChar 125), Lit (js ''}''), Close,
             Lit (js ''}'')]"
  have R: "?R = [Lit ?L, Star Space, Open, Lit [123], Plus (NotChar 125), Lit [125], Close,
                 Lit [125]]" by (simp add: js_def)
  fix t n w post gs
  assume n: "n \<le> length t" and dr: "drop n t = w @ post" and tok: "table_token w gs"
  from tok obtain ws body where
    w: "w = ?L @ ws @ [123] @ body @ [125, 125]" "gs = [[123] @ body @ [125]]"
       "list_all is_space ws" "body \<noteq> []" "list_all (\<lambda>c. c \<noteq> 125) body"
    unfolding table_token_def by blast
  let ?ms = "[n + length ?L + length ws, n + length ?L + length ws + 1 + length body + 1]"
  from dr w(1) have d: "drop n t = ?L @ ws @ 123 # body @ 125 # 125 # post" by simp
  have r: "rx False ?R n (drop n t) = Some (?ms, n + length w)"
    unfolding d R using table_rx_complete [OF w(3,4,5), of ?L n post] w(1) by simp
  from d have "drop n t = (?L @ ws) @ ([123] @ body @ [125]) @ (125 # post)" by simp
  from slice_drop [OF this] have "groups t ?ms = gs" using w(2) by (simp add: add.assoc)
  with r show "\<exists>ms. rx False ?R n (drop n t) = Some (ms, n + length w) \<and> groups t ms = gs"
    by blast
qed

lemma table_token_one: "\<forall>w gs. table_token w gs \<longrightarrow> (\<exists>g. gs = [g] \<and> g \<noteq> [])"
  unfolding table_token_def by auto

text \<open>The table of the handler is what the parser makes of the payload of the first
  table token.\<close>

lemma extract_table_first_token:
  assumes "first_token table_token t [payload]"
  shows "extract_table json_parse t = json_parse payload"
proof -
  from assms obtain m0 where "js_match False table_rx t = Some (m0 # [payload])"
    using implements_Some [OF table_rx_implements, of t "[payload]"] by blast
  then show ?thesis by (simp add: extract_table_def split: option.splits)
qed

lemma extract_table_no_token:
  assumes "no_token table_token t"
  shows "extract_table json_parse t = None"
proof -
  from assms have "js_match False table_rx t = None"
    using implements_None [OF table_rx_implements] by blast
  then show ?thesis by (simp add: extract_table_def)
qed

lemma formattedMessages_table:
  "\<forall>m\<in>set (formattedMessages table t).
     hm_table m = (if hm_speaker m = plato then table else None)"
  by (auto simp: formattedMessages_def Let_def split: list.splits)

lemma formattedMessages_rest:
  "map (\<lambda>m. (hm_speaker m, hm_content m)) (formattedMessages table t)
   = map (\<lambda>m. (hm_speaker m, hm_content m)) (formattedMessages table' t)"
  by (auto simp: formattedMessages_def Let_def split: list.splits)


lemma reply_table_token: "first_token table_token reply_table [js ''{oops}'']"
proof -
  have "js_match False table_rx reply_table
        = Some [js ''{table: {oops}}'', js ''{oops}'']"
    by (simp add: reply_table_def table_rx_def rx_eval)
  then show ?thesis
    using implements_Some [OF table_rx_implements, of reply_table "[js ''{oops}'']"] by blast
qed

lemma reply_table_messages:
  "formattedMessages table reply_table
   = [\<lparr>hm_speaker = plato, hm_content = js ''Look at this. }'', hm_table = table\<rparr>,
      \<lparr>hm_speaker = qaylee, hm_content = js ''I see.'', hm_table = None\<rparr>]"
  by (simp add: formattedMessages_def cleanContent_def reply_table_def message_rx_def
        hn_award_points_clean_rx_def hn_table_clean_rx_def rx_eval)


section \<open>Claims about the table token\<close>

text \<open>
  Claim C8. Let the first table token of the reply carry a payload on which \<open>JSON.parse\<close>
  throws. The handler of the health-nut dialogue answers 200, not an error, and no
  message of the response carries a table. The rest of the response is processed as
  usual: had the payload been parsed to a value \<open>v\<close>, the messages of Plato would carry
  \<open>v\<close>, and the response would differ in nothing else (same speakers and contents of
  the messages, same points, same completion flag).
\<close>

theorem table_parse_failure_gives_no_table:
  assumes "first_token table_token t [payload]"
    and "(json_parse :: jsstring \<Rightarrow> 'j option) payload = None"
  shows "\<exists>r. health_nut_dialogue json_parse (Some uid) dialogueHistory (Some t) = Ok r
           \<and> (\<forall>m\<in>set (hn_messages r). hm_table m = None)
           \<and> (\<forall>(parse' :: jsstring \<Rightarrow> 'j option) v. parse' payload = Some v \<longrightarrow>
                (\<exists>r'. health_nut_dialogue parse' (Some uid) dialogueHistory (Some t) = Ok r'
                   \<and> (\<forall>m\<in>set (hn_messages r').
                         hm_table m = (if hm_speaker m = plato then Some v else None))
                   \<and> map (\<lambda>m. (hm_speaker m, hm_content m)) (hn_messages r)
                     = map (\<lambda>m. (hm_speaker m, hm_content m)) (hn_messages r')
                   \<and> hn_points r = hn_points r' \<and> hn_isComplete r = hn_isComplete r'))"
proof -
  let ?resp = "\<lambda>table. \<lparr>hn_messages = formattedMessages table t,
                          hn_points = hn_extract_points t,
                          hn_isComplete = health_nut_isComplete (length dialogueHistory)
                                            (hn_extract_points t)\<rparr>"
  have run: "health_nut_dialogue p (Some uid) dialogueHistory (Some t) = Ok (?resp (p payload))"
    for p :: "jsstring \<Rightarrow> 'j option"
    by (simp add: health_nut_dialogue_def Let_def extract_table_first_token [OF assms(1)])
  have none: "\<forall>m\<in>set (hn_messages (?resp None)). hm_table m = None"
    using formattedMessages_table [of None t] by simp
  have other: "\<exists>r'. health_nut_dialogue parse' (Some uid) dialogueHistory (Some t) = Ok r'
                   \<and> (\<forall>m\<in>set (hn_messages r').
                         hm_table m = (if hm_speaker m = plato then Some v else None))
                   \<and> map (\<lambda>m. (hm_speaker m, hm_content m)) (hn_messages (?resp None))
                     = map (\<lambda>m. (hm_speaker m, hm_content m)) (hn_messages r')
                   \<and> hn_points (?resp None) = hn_points r'
                   \<and> hn_isComplete (?resp None) = hn_isComplete r'"
    if "parse' payload = Some v" for parse' :: "jsstring \<Rightarrow> 'j option" and v
  proof -
    from that have "health_nut_dialogue parse' (Some uid) dialogueHistory (Some t)
                    = Ok (?resp (Some v))" using run [of parse'] by simp
    moreover have "\<forall>m\<in>set (hn_messages (?resp (Some v))).
                     hm_table m = (if hm_speaker m = plato then Some v else None)"
      using formattedMessages_table [of "Some v" t] by simp
    moreover have "map (\<lambda>m. (hm_speaker m, hm_content m)) (hn_messages (?resp None))
                   = map (\<lambda>m. (hm_speaker m, hm_content m)) (hn_messages (?resp (Some v)))"
      using formattedMessages_rest [of None t "Some v"] by simp
    ultimately show ?thesis by simp
  qed
  from assms(2) have r: "health_nut_dialogue json_parse (Some uid) dialogueHistory (Some t)
                      = Ok (?resp None)" using run [of json_parse] by simp
  show ?thesis
  proof (intro exI conjI)
    show "health_nut_dialogue json_parse (Some uid) dialogueHistory (Some t) = Ok (?resp None)"
      by (rule r)
    show "\<forall>m\<in>set (hn_messages (?resp None)). hm_table m = None" by (rule none)
    show "\<forall>(parse' :: jsstring \<Rightarrow> 'j option) v. parse' payload = Some v \<longrightarrow>
                (\<exists>r'. health_nut_dialogue parse' (Some uid) dialogueHistory (Some t) = Ok r'
                   \<and> (\<forall>m\<in>set (hn_messages r').
                         hm_table m = (if hm_speaker m = plato then Some v else None))
                   \<and> map (\<lambda>m. (hm_speaker m, hm_content m)) (hn_messages (?resp None))
                     = map (\<lambda>m. (hm_speaker m, hm_content m)) (hn_messages r')
                   \<and> hn_points (?resp None) = hn_points r'
                   \<and> hn_isComplete (?resp None) = hn_isComplete r')"
      by (intro allI impI) (rule other)
  qed
qed

theorem table_parse_failure_gives_no_table_witness:
  "first_token table_token reply_table [js ''{oops}'']
 \<and> health_nut_dialogue (\<lambda>p. None :: nat option) (Some 1) ([] :: unit list) (Some reply_table)
   = Ok \<lparr>hn_messages =
           [\<lparr>hm_speaker = plato, hm_content = js ''Look at this. }'', hm_table = None\<rparr>,
            \<lparr>hm_speaker = qaylee, hm_content = js ''I see.'', hm_table = None\<rparr>],
         hn_points = None, hn_isComplete = False\<rparr>
 \<and> (\<exists>r. health_nut_dialogue (\<lambda>p. None :: nat option) (Some 1) ([] :: unit list) (Some reply_table) = Ok r
        \<and> (\<forall>m\<in>set (hn_messages r). hm_table m = None))"
proof -
  have "hn_extract_points reply_table = None"
    by (simp add: hn_extract_points_def hn_award_points_rx_def reply_table_def rx_eval)
  then have run: "health_nut_dialogue (\<lambda>p. None :: nat option) (Some 1) ([] :: unit list) (Some reply_table)
   = Ok \<lparr>hn_messages =
           [\<lparr>hm_speaker = plato, hm_content = js ''Look at this. }'', hm_table = None\<rparr>,
            \<lparr>hm_speaker = qaylee, hm_content = js ''I see.'', hm_table = None\<rparr>],
         hn_points = None, hn_isComplete = False\<rparr>"
    by (simp add: health_nut_dialogue_def Let_def extract_table_first_token [OF reply_table_token]
          reply_table_messages health_nut_isComplete_def)
  have np: "(\<lambda>p. None :: nat option) (js ''{oops}'') = None" by simp
  from table_parse_failure_gives_no_table [OF reply_table_token np, of 1 "[] :: unit list"]
  obtain r where r: "health_nut_dialogue (\<lambda>p. None :: nat option) (Some 1) ([] :: unit list) (Some reply_table) = Ok r"
      "\<forall>m\<in>set (hn_messages r). hm_table m = None"
    by (elim exE conjE) (rule that, assumption+)
  then have ex: "\<exists>r. health_nut_dialogue (\<lambda>p. None :: nat option) (Some 1) ([] :: unit list) (Some reply_table) = Ok r
        \<and> (\<forall>m\<in>set (hn_messages r). hm_table m = None)"
    by blast
  from reply_table_token run ex show ?thesis by (intro conjI)
qed

section \<open>Claims about the point token\<close>

lemma lit_match_take: "lit_match False l s \<Longrightarrow> s = l @ drop (length l) s"
proof -
  assume "lit_match False l s"
  then have "length l \<le> length s" "take (length l) s = l" by (simp_all add: lit_match_iff)
  then show ?thesis by (metis append_take_drop_id)
qed

lemma infix_drop: "drop k s = a @ l @ b \<Longrightarrow> \<exists>a' b'. s = a' @ l @ b'"
proof -
  assume "drop k s = a @ l @ b"
  then have "s = (take k s @ a) @ l @ b" by (metis append_take_drop_id append.assoc)
  then show ?thesis by blast
qed

lemma infix_Cons: "xs = a @ l @ b \<Longrightarrow> \<exists>a' b'. x # xs = a' @ l @ b'"
proof -
  assume "xs = a @ l @ b"
  then have "x # xs = (x # a) @ l @ b" by simp
  then show ?thesis by blast
qed

text \<open>A literal of a pattern without the flag \<open>i\<close> occurs in every text that the pattern
  matches.\<close>

lemma rx_Lit_infix:
  "rx i r n s = Some m \<Longrightarrow> \<not> i \<Longrightarrow> Lit l \<in> set r \<Longrightarrow> \<exists>a b. s = a @ l @ b"
proof (induction i r n s arbitrary: m rule: rx.induct)
  case (1 i n s)
  then show ?case by simp
next
  case (2 i l' r n s)
  from "2.prems"(1) have lm: "lit_match i l' s"
    and r: "rx i r (n + length l') (drop (length l') s) = Some m"
    by (simp_all split: if_splits)
  show ?case
  proof (cases "l = l'")
    case True
    from lm "2.prems"(2) have "s = l' @ drop (length l') s" by (simp add: lit_match_take)
    with True have "s = [] @ l @ drop (length l') s" by simp
    then show ?thesis by blast
  next
    case False
    with "2.prems"(3) have "Lit l \<in> set r" by simp
    from "2.IH" [OF lm r "2.prems"(2) this] obtain a b where "drop (length l') s = a @ l @ b"
      by blast
    then show ?thesis by (rule infix_drop)
  qed
next
  case (3 i r n s)
  from "3.prems"(1) obtain m' where "rx i r n s = Some m'" by (auto split: option.splits)
  from "3.IH" [OF this "3.prems"(2)] "3.prems"(3) show ?case by simp
next
  case (4 i r n s)
  from "4.prems"(1) obtain m' where "rx i r n s = Some m'" by (auto split: option.splits)
  from "4.IH" [OF this "4.prems"(2)] "4.prems"(3) show ?case by simp
next
  case (5 i c r n)
  from "5.prems"(1) have "rx i r n [] = Some m" by simp
  from "5.IH" [OF this "5.prems"(2)] "5.prems"(3) show ?case by simp
next
  case (6 i c r n x xs)
  from "6.prems"(3) have l: "Lit l \<in> set r" "Lit l \<in> set (Star c # r)" by simp_all
  show ?case
  proof (cases "in_class i c x")
    case True
    show ?thesis
    proof (cases "rx i (Star c # r) (Suc n) xs")
      case None
      with True "6.prems"(1) have "rx i r n (x # xs) = Some m" by simp
      from "6.IH"(2) [OF True None this "6.prems"(2) l(1)] show ?thesis .
    next
      case (Some m')
      from "6.IH"(1) [OF True Some "6.prems"(2) l(2)] obtain a b where "xs = a @ l @ b" by blast
      then show ?thesis by (rule infix_Cons)
    qed
  next
    case False
    with "6.prems"(1) have "rx i r n (x # xs) = Some m" by simp
    from "6.IH"(3) [OF False this "6.prems"(2) l(1)] show ?thesis .
  qed
next
  case (7 i c r n)
  then show ?case by simp
next
  case (8 i c r n x xs)
  from "8.prems"(3) have l: "Lit l \<in> set (Star c # r)" by simp
  from "8.prems"(1) have c: "in_class i c x" and r: "rx i (Star c # r) (Suc n) xs = Some m"
    by (simp_all split: if_splits)
  from "8.IH" [OF c r "8.prems"(2) l] obtain a b where "xs = a @ l @ b" by blast
  then show ?case by (rule infix_Cons)
next
  case (9 i c r n)
  from "9.prems"(1) have "rx i r n [] = Some m" by simp
  from "9.IH" [OF this "9.prems"(2)] "9.prems"(3) show ?case by simp
next
  case (10 i c r n x xs)
  from "10.prems"(3) have l: "Lit l \<in> set r" "Lit l \<in> set (LazyStar c # r)" by simp_all
  show ?case
  proof (cases "rx i r n (x # xs)")
    case (Some m')
    from "10.IH"(1) [OF Some "10.prems"(2) l(1)] show ?thesis .
  next
    case None
    with "10.prems"(1) have c: "in_class i c x" and r: "rx i (LazyStar c # r) (Suc n) xs = Some m"
      by (simp_all split: if_splits)
    from "10.IH"(2) [OF None c r "10.prems"(2) l(2)] obtain a b where "xs = a @ l @ b" by blast
    then show ?thesis by (rule infix_Cons)
  qed
next
  case (11 i r n s)
  then show ?case by simp
next
  case (12 i l' ls r n s)
  from "12.prems"(3) have l: "Lit l \<in> set r" "Lit l \<in> set (Alt ls # r)" by simp_all
  show ?case
  proof (cases "if lit_match i l' s then rx i r (n + length l') (drop (length l') s) else None")
    case None
    with "12.prems"(1) have "rx i (Alt ls # r) n s = Some m" by simp
    from "12.IH"(2) [OF None this "12.prems"(2) l(2)] show ?thesis .
  next
    case (Some m')
    then have lm: "lit_match i l' s" and r: "rx i r (n + length l') (drop (length l') s) = Some m'"
      by (simp_all split: if_splits)
    from "12.IH"(1) [OF lm r "12.prems"(2) l(1)] obtain a b
      where "drop (length l') s = a @ l @ b" by blast
    then show ?thesis by (rule infix_drop)
  qed
next
  case (13 i ls r n s)
  from "13.prems"(1) have c: "s = [] \<or> list_ex (\<lambda>l. lit_match i l s) ls" and r: "rx i r n s = Some m"
    by (simp_all split: if_splits)
  from "13.prems"(3) have "Lit l \<in> set r" by simp
  from "13.IH" [OF c r "13.prems"(2) this] show ?case .
qed

text \<open>The pattern of the health-nut handler holds the literal \<open>""\<close>: no reply without two
  consecutive double quotes yields points there.\<close>

lemma hn_extract_points_two_quotes:
  assumes "hn_extract_points t = Some p"
  shows "\<exists>a b. t = a @ [34, 34] @ b"
proof -
  from assms obtain k ms e where s: "search False hn_award_points_rx 0 t = Some (k, ms, e)"
    by (auto simp: hn_extract_points_def js_match_def split: option.splits prod.splits)
  then obtain j where "rx False hn_award_points_rx j (drop j t) = Some (ms, e)"
    using search_Some_iff [of False hn_award_points_rx 0 t k ms e] by auto
  moreover have "Lit [34, 34] \<in> set hn_award_points_rx" by (simp add: hn_award_points_rx_def)
  ultimately obtain a b where "drop j t = a @ [34, 34] @ b"
    using rx_Lit_infix [of False hn_award_points_rx j "drop j t" "(ms, e)" "[34, 34]"] by blast
  then show ?thesis by (rule infix_drop)
qed


text \<open>The point award of POST /api/dialogue is read off the first point token of the
  reply: the amount is the number written in it, as a Number, and the type is its label
  without the white space around it.\<close>

lemma extract_points_first_token:
  "extract_points t = Some p
   \<longleftrightarrow> (\<exists>ds lab. first_token points_token t [ds, lab]
          \<and> p = \<lparr>amount = to_number (written_amount ds), award_type = trim lab\<rparr>)"
proof
  assume "extract_points t = Some p"
  then obtain m0 m1 m2 rest where m: "js_match False award_points_rx t = Some (m0 # m1 # m2 # rest)"
    and p: "p = \<lparr>amount = parseInt m1, award_type = trim m2\<rparr>"
    by (auto simp: extract_points_def split: option.splits list.splits)
  from m have ft: "first_token points_token t (m1 # m2 # rest)"
    using implements_Some [OF points_rx_implements, of t "m1 # m2 # rest"] by blast
  have "\<forall>w gs. points_token w gs \<longrightarrow> (\<exists>a b. gs = [a, b])"
    unfolding points_token_def by blast
  from first_token_value [OF ft this] have "rest = []" by simp
  with ft p show "\<exists>ds lab. first_token points_token t [ds, lab]
          \<and> p = \<lparr>amount = to_number (written_amount ds), award_type = trim lab\<rparr>"
    by (auto simp: parseInt_def decimal_written_amount)
next
  assume "\<exists>ds lab. first_token points_token t [ds, lab]
          \<and> p = \<lparr>amount = to_number (written_amount ds), award_type = trim lab\<rparr>"
  then obtain ds lab where ft: "first_token points_token t [ds, lab]"
    and p: "p = \<lparr>amount = to_number (written_amount ds), award_type = trim lab\<rparr>" by blast
  from ft obtain m0 where "js_match False award_points_rx t = Some (m0 # [ds, lab])"
    using implements_Some [OF points_rx_implements, of t "[ds, lab]"] by blast
  with p show "extract_points t = Some p"
    by (simp add: extract_points_def parseInt_def decimal_written_amount)
qed

lemma reply_clear_token: "first_token points_token reply_clear [js ''4'', js ''clear'']"
proof -
  have "js_match False award_points_rx reply_clear
        = Some [js ''{award_points: 4, type: '' @ [34] @ js ''clear'' @ [34] @ js ''}'',
                js ''4'', js ''clear'']"
    by (simp add: reply_clear_def award_points_rx_def rx_eval)
  then show ?thesis
    using implements_Some [OF points_rx_implements, of reply_clear "[js ''4'', js ''clear'']"]
    by blast
qed

lemma reply_clear_messages:
  "formattedMessages None reply_clear
   = [\<lparr>hm_speaker = plato, hm_content = js ''Well explained. '', hm_table = None\<rparr>]"
  by (simp add: formattedMessages_def cleanContent_def reply_clear_def message_rx_def
        hn_award_points_clean_rx_def hn_table_clean_rx_def rx_eval)

text \<open>
  Claim C3 says that the parser extracts the amount and the type of a well-formed point
  token. The pattern of the health-nut handler asks for two double quotes before the
  label (\<open>type:\s*""([^"]+)"\<close>), which no token of the syntax
  \<open>{award_points: N, type: "label"}\<close> has: for a reply that awards 4 points in the syntax
  that the prompt of this very handler prescribes (a well-formed point token, lemma
  \<open>reply_clear_token\<close>), the response carries no points. The handler of POST
  /api/dialogue, whose pattern has one double quote, extracts 4 and \<open>clear\<close> from the
  same reply.
\<close>

theorem hn_points_token_not_extracted:
  "extract_points reply_clear = Some \<lparr>amount = 4, award_type = js ''clear''\<rparr>
 \<and> health_nut_dialogue json_parse (Some 1) dialogueHistory (Some reply_clear)
   = Ok \<lparr>hn_messages =
           [\<lparr>hm_speaker = plato, hm_content = js ''Well explained. '', hm_table = None\<rparr>],
         hn_points = None, hn_isComplete = False\<rparr>"
proof -
  have a: "extract_points reply_clear = Some \<lparr>amount = 4, award_type = js ''clear''\<rparr>"
    by (simp add: reply_clear_def extract_points_def award_points_rx_def rx_eval)
  have b: "hn_extract_points reply_clear = None"
    by (simp add: reply_clear_def hn_extract_points_def hn_award_points_rx_def rx_eval)
  have c: "extract_table json_parse reply_clear = None"
    by (simp add: reply_clear_def extract_table_def table_rx_def rx_eval)
  have "health_nut_dialogue json_parse (Some 1) dialogueHistory (Some reply_clear)
   = Ok \<lparr>hn_messages =
           [\<lparr>hm_speaker = plato, hm_content = js ''Well explained. '', hm_table = None\<rparr>],
         hn_points = None, hn_isComplete = False\<rparr>"
    by (simp add: health_nut_dialogue_def Let_def b c reply_clear_messages
          health_nut_isComplete_def)
  with a show ?thesis by (intro conjI)
qed

text \<open>The display text of POST /api/dialogue is made in one pass per kind of token, the
  point tokens first: a point token that appears when a badge token is removed stays in
  the display text.\<close>

lemma cleanedResponse_leaves_token:
  "cleanedResponse reply_nested
   = js ''Good. {award_points: 1, type: '' @ [34] @ js ''a'' @ [34] @ js ''}''
 \<and> extract_points (cleanedResponse reply_nested) = Some \<lparr>amount = 1, award_type = js ''a''\<rparr>"
proof -
  have a: "cleanedResponse reply_nested
   = js ''Good. {award_points: 1, type: '' @ [34] @ js ''a'' @ [34] @ js ''}''"
    by (simp add: reply_nested_def cleanedResponse_def award_points_clean_rx_def
          badge_clean_rx_def rx_eval)
  have "extract_points (js ''Good. {award_points: 1, type: '' @ [34] @ js ''a'' @ [34] @ js ''}'')
        = Some \<lparr>amount = 1, award_type = js ''a''\<rparr>"
    by (simp add: extract_points_def award_points_rx_def rx_eval one_enat_def)
  with a show ?thesis by simp
qed

end
